theory Spec2Isabelle
  imports Complex_Main "HOL-Library.Word" "HOL-Library.Multiset"
begin

section \<open>Strings and text normalisation\<close>

text \<open>
  Strings are lists of 8-bit characters; the model is exact on ASCII text. Python floats
  are idealised as real numbers, so the two-decimal arithmetic of the weight table and
  the percent scores are computed exactly.
\<close>

text \<open>Python's \<^verbatim>\<open>str.isspace\<close> on one ASCII character (also the regex class \<^verbatim>\<open>\s\<close>).\<close>

definition is_space_char :: "char \<Rightarrow> bool" where
  "is_space_char c =
     (let n = (of_char c :: nat) in (9 \<le> n \<and> n \<le> 13) \<or> (28 \<le> n \<and> n \<le> 32))"

text \<open>\<^verbatim>\<open>str.strip()\<close>: leading and trailing whitespace removed.\<close>

definition py_strip :: "string \<Rightarrow> string" where
  "py_strip s = rev (dropWhile is_space_char (rev (dropWhile is_space_char s)))"

text \<open>\<^verbatim>\<open>s.replace(" ", "")\<close>: every space character (and only U+0020) is deleted.\<close>

definition replace_space :: "string \<Rightarrow> string" where
  "replace_space s = filter (\<lambda>c. c \<noteq> CHR '' '') s"

text \<open>
  The characters that \<^verbatim>\<open>default_process\<close> keeps: ASCII letters and digits. Characters above
  127 are kept too.
\<close>

definition is_word_char :: "char \<Rightarrow> bool" where
  "is_word_char c =
     (let n = (of_char c :: nat) in
        (48 \<le> n \<and> n \<le> 57) \<or> (65 \<le> n \<and> n \<le> 90) \<or> (97 \<le> n \<and> n \<le> 122)
        \<or> 128 \<le> n)"

definition lower_char :: "char \<Rightarrow> char" where
  "lower_char c =
     (let n = (of_char c :: nat) in if 65 \<le> n \<and> n \<le> 90 then char_of (n + 32) else c)"

definition py_lower :: "string \<Rightarrow> string" where
  "py_lower s = map lower_char s"

text \<open>
  \<^verbatim>\<open>rapidfuzz.utils.default_process\<close>: every character that is not a letter or a digit is
  replaced by a space, then the string is stripped and lower-cased.
\<close>

definition default_process :: "string \<Rightarrow> string" where
  "default_process s =
     py_lower (py_strip (map (\<lambda>c. if is_word_char c then c else CHR '' '') s))"

text \<open>A cell of a data frame or a scalar of a record: \<open>None\<close> is NaN / \<^verbatim>\<open>None\<close>.\<close>

type_synonym cell = "string option"

text \<open>
  \<^verbatim>\<open>FuzzyMatcherComponent._preprocess_text\<close>:
  \<^verbatim>\<open>if pd.isna(text) or text is None: return ""\<close>, else
  \<^verbatim>\<open>utils.default_process(str(text).strip().replace(" ", ""))\<close>.
\<close>

definition preprocess_text :: "cell \<Rightarrow> string" where
  "preprocess_text text =
     (case text of
        None \<Rightarrow> []
      | Some t \<Rightarrow> default_process (replace_space (py_strip t)))"

text \<open>
  \<^verbatim>\<open>_preprocess_dataframe_column\<close>:
  \<^verbatim>\<open>series.fillna("").astype(str).apply(self._preprocess_text)\<close>.
\<close>

definition fillna_str :: "cell \<Rightarrow> string" where
  "fillna_str v = (case v of None \<Rightarrow> [] | Some s \<Rightarrow> s)"

definition preprocess_dataframe_column :: "cell list \<Rightarrow> string list" where
  "preprocess_dataframe_column series =
     (if series = [] then [] else map (\<lambda>v. preprocess_text (Some (fillna_str v))) series)"

section \<open>Dates\<close>

text \<open>
  The tokens of a \<^verbatim>\<open>strptime\<close> format, as \<^verbatim>\<open>_strptime.TimeRE.pattern\<close> builds its regular
  expression: a directive, a run of whitespace (which becomes \<^verbatim>\<open>\s+\<close>), or a literal.
\<close>

datatype tok = Lit char | WS | DirY | Dirm | Dird | DirH | DirM | DirS | Dirb | DirB

fun parse_format :: "string \<Rightarrow> tok list" where
  "parse_format [] = []"
| "parse_format [c] = (if is_space_char c then [WS] else [Lit c])"
| "parse_format (c # d # r) =
     (if c = CHR ''%'' then
        (if d = CHR ''Y'' then DirY else if d = CHR ''m'' then Dirm
         else if d = CHR ''d'' then Dird else if d = CHR ''H'' then DirH
         else if d = CHR ''M'' then DirM else if d = CHR ''S'' then DirS
         else if d = CHR ''b'' then Dirb else if d = CHR ''B'' then DirB
         else Lit d) # parse_format r
      else if is_space_char c then
        (if is_space_char d then parse_format (d # r) else WS # parse_format (d # r))
      else Lit c # parse_format (d # r))"

record date_fields =
  year :: nat
  month :: nat
  day :: nat
  hour :: nat
  minute :: nat
  second :: nat

definition is_digit :: "char \<Rightarrow> bool" where
  "is_digit c = (let n = (of_char c :: nat) in 48 \<le> n \<and> n \<le> 57)"

definition digit_val :: "char \<Rightarrow> nat" where
  "digit_val c = of_char c - 48"

definition in_range :: "nat \<Rightarrow> nat \<Rightarrow> char \<Rightarrow> bool" where
  "in_range lo hi c = (is_digit c \<and> lo \<le> digit_val c \<and> digit_val c \<le> hi)"

text \<open>One regex alternative of two digit classes, or of one; each yields value and rest.\<close>

definition two :: "(char \<Rightarrow> bool) \<Rightarrow> (char \<Rightarrow> bool) \<Rightarrow> string \<Rightarrow> (nat \<times> string) list" where
  "two P Q s =
     (case s of
        a # b # r \<Rightarrow> if P a \<and> Q b then [(10 * digit_val a + digit_val b, r)] else []
      | _ \<Rightarrow> [])"

definition one :: "(char \<Rightarrow> bool) \<Rightarrow> string \<Rightarrow> (nat \<times> string) list" where
  "one P s = (case s of a # r \<Rightarrow> if P a then [(digit_val a, r)] else [] | _ \<Rightarrow> [])"

definition month_abbr :: "string list" where
  "month_abbr = [''jan'', ''feb'', ''mar'', ''apr'', ''may'', ''jun'',
                 ''jul'', ''aug'', ''sep'', ''oct'', ''nov'', ''dec'']"

definition month_name :: "string list" where
  "month_name = [''january'', ''february'', ''march'', ''april'', ''may'', ''june'',
                 ''july'', ''august'', ''september'', ''october'', ''november'', ''december'']"

text \<open>
  The alternation of month names is sorted by decreasing length (stably) and matched
  ignoring case; the value is the position of the name in the calendar.
\<close>

definition names_alts :: "string list \<Rightarrow> nat list \<Rightarrow> string \<Rightarrow> (nat \<times> string) list" where
  "names_alts names order s =
     concat (map (\<lambda>i. let nm = names ! i in
                        if py_lower (take (length nm) s) = nm
                        then [(Suc i, drop (length nm) s)] else []) order)"

text \<open>The alternatives of each directive, in the order of the regular expression.\<close>

fun alts :: "tok \<Rightarrow> string \<Rightarrow> (nat \<times> string) list" where
  "alts DirY s =
     (case s of
        a # b # c # d # r \<Rightarrow>
          if is_digit a \<and> is_digit b \<and> is_digit c \<and> is_digit d
          then [(1000 * digit_val a + 100 * digit_val b + 10 * digit_val c + digit_val d, r)]
          else []
      | _ \<Rightarrow> [])"
| "alts Dirm s =
     two (in_range 1 1) (in_range 0 2) s @ two (in_range 0 0) (in_range 1 9) s
     @ one (in_range 1 9) s"
| "alts Dird s =
     two (in_range 3 3) (in_range 0 1) s @ two (in_range 1 2) is_digit s
     @ two (in_range 0 0) (in_range 1 9) s @ one (in_range 1 9) s
     @ (case s of a # r \<Rightarrow> if a = CHR '' '' then one (in_range 1 9) r else [] | _ \<Rightarrow> [])"
| "alts DirH s =
     two (in_range 2 2) (in_range 0 3) s @ two (in_range 0 1) is_digit s @ one is_digit s"
| "alts DirM s = two (in_range 0 5) is_digit s @ one is_digit s"
| "alts DirS s =
     two (in_range 6 6) (in_range 0 1) s @ two (in_range 0 5) is_digit s @ one is_digit s"
| "alts Dirb s = names_alts month_abbr [0, 1, 2, 3, 4, 5, 6, 7, 8, 9, 10, 11] s"
| "alts DirB s = names_alts month_name [8, 1, 10, 11, 0, 9, 7, 2, 3, 5, 6, 4] s"
| "alts (Lit c) s = (case s of a # r \<Rightarrow> if a = c then [(0, r)] else [] | _ \<Rightarrow> [])"
| "alts WS s =
     map (\<lambda>k. (0, drop k s)) (rev [1 ..< Suc (length (takeWhile is_space_char s))])"

fun set_field :: "tok \<Rightarrow> nat \<Rightarrow> date_fields \<Rightarrow> date_fields" where
  "set_field DirY v f = f\<lparr>year := v\<rparr>"
| "set_field Dirm v f = f\<lparr>month := v\<rparr>"
| "set_field Dirb v f = f\<lparr>month := v\<rparr>"
| "set_field DirB v f = f\<lparr>month := v\<rparr>"
| "set_field Dird v f = f\<lparr>day := v\<rparr>"
| "set_field DirH v f = f\<lparr>hour := v\<rparr>"
| "set_field DirM v f = f\<lparr>minute := v\<rparr>"
| "set_field DirS v f = f\<lparr>second := v\<rparr>"
| "set_field _ v f = f"

text \<open>
  All matches of a token sequence against a prefix of the string, in the order in which a
  backtracking matcher finds them; \<^verbatim>\<open>re.match\<close> returns the first.
\<close>

fun tmatch :: "tok list \<Rightarrow> date_fields \<Rightarrow> string \<Rightarrow> (date_fields \<times> string) list" where
  "tmatch [] f s = [(f, s)]"
| "tmatch (t # ts) f s = concat (map (\<lambda>(v, r). tmatch ts (set_field t v f) r) (alts t s))"

definition is_leap :: "nat \<Rightarrow> bool" where
  "is_leap y = (y mod 4 = 0 \<and> (y mod 100 \<noteq> 0 \<or> y mod 400 = 0))"

definition days_in_month :: "nat \<Rightarrow> nat \<Rightarrow> nat" where
  "days_in_month y m =
     (if m = 2 then (if is_leap y then 29 else 28)
      else if m = 4 \<or> m = 6 \<or> m = 9 \<or> m = 11 then 30 else 31)"

text \<open>What the \<^verbatim>\<open>datetime\<close> constructor accepts; anything else is a \<^verbatim>\<open>ValueError\<close>.\<close>

definition valid_datetime :: "date_fields \<Rightarrow> bool" where
  "valid_datetime f =
     (1 \<le> year f \<and> year f \<le> 9999 \<and> 1 \<le> month f \<and> month f \<le> 12
      \<and> 1 \<le> day f \<and> day f \<le> days_in_month (year f) (month f)
      \<and> hour f \<le> 23 \<and> minute f \<le> 59 \<and> second f \<le> 59)"

definition default_fields :: date_fields where
  "default_fields = \<lparr>year = 1900, month = 1, day = 1, hour = 0, minute = 0, second = 0\<rparr>"

text \<open>
  \<^verbatim>\<open>datetime.strptime(data_string, format)\<close>; \<open>None\<close> stands for the \<^verbatim>\<open>ValueError\<close> raised
  when the pattern does not match, when unconverted data remains after the first match,
  or when the fields are not a date.
\<close>

definition strptime :: "string \<Rightarrow> string \<Rightarrow> date_fields option" where
  "strptime data_string fmt =
     (case tmatch (parse_format fmt) default_fields data_string of
        [] \<Rightarrow> None
      | (f, rest) # _ \<Rightarrow> if rest = [] \<and> valid_datetime f then Some f else None)"

definition digit_char :: "nat \<Rightarrow> char" where
  "digit_char n = char_of (48 + n mod 10)"

text \<open>
  \<^verbatim>\<open>strftime("%Y%m%d")\<close> as CPython prints it through the C library on Linux: the year
  without leading zeros (the years of a \<^verbatim>\<open>datetime\<close> are 1 to 9999), then month and day with
  two digits each.
\<close>

definition year_digits :: "nat \<Rightarrow> string" where
  "year_digits y =
     (if y < 10 then [digit_char y]
      else if y < 100 then [digit_char (y div 10), digit_char y]
      else if y < 1000 then [digit_char (y div 100), digit_char (y div 10), digit_char y]
      else [digit_char (y div 1000), digit_char (y div 100), digit_char (y div 10), digit_char y])"

definition strftime_Ymd :: "date_fields \<Rightarrow> string" where
  "strftime_Ymd f =
     year_digits (year f)
     @ [digit_char (month f div 10), digit_char (month f),
        digit_char (day f div 10), digit_char (day f)]"

definition date_formats :: "string list" where
  "date_formats =
     [''%Y-%m-%d %H:%M:%S'', ''%Y-%m-%d'', ''%d/%m/%Y'', ''%m/%d/%Y'', ''%Y/%m/%d'',
      ''%Y%m%d'', ''%d-%m-%Y'', ''%m-%d-%Y'', ''%b %d, %Y'', ''%d %b %Y'', ''%B %d, %Y'',
      ''%d %B %Y'', ''%Y.%m.%d'', ''%d.%m.%Y'', ''%m.%d.%Y'', ''%Y/%m/%d %H:%M:%S'',
      ''%d-%b-%Y'', ''%d-%B-%Y'', ''%Y-%b-%d'', ''%Y-%B-%d'']"

text \<open>The \<^verbatim>\<open>for date_format in date_formats\<close> loop: the first layout that parses wins.\<close>

fun try_formats :: "string list \<Rightarrow> string \<Rightarrow> string option" where
  "try_formats [] s = None"
| "try_formats (fmt # fmts) s =
     (case strptime s fmt of
        Some d \<Rightarrow> Some (strftime_Ymd d)
      | None \<Rightarrow> try_formats fmts s)"

text \<open>
  \<^verbatim>\<open>standardize_date_format\<close>: a falsy argument (\<^verbatim>\<open>None\<close>, the empty string) gives \<^verbatim>\<open>None\<close>.
\<close>

definition standardize_date_format :: "cell \<Rightarrow> string option" where
  "standardize_date_format date_obj =
     (case date_obj of
        None \<Rightarrow> None
      | Some s \<Rightarrow> if s = [] then None else try_formats date_formats s)"

section \<open>Similarity\<close>

text \<open>Length of a longest common subsequence.\<close>

fun lcs :: "string \<Rightarrow> string \<Rightarrow> nat" where
  "lcs [] ys = 0"
| "lcs (x # xs) [] = 0"
| "lcs (x # xs) (y # ys) =
     (if x = y then Suc (lcs xs ys) else max (lcs (x # xs) ys) (lcs xs (y # ys)))"

text \<open>
  \<^verbatim>\<open>rapidfuzz.fuzz.ratio\<close>: the normalised Indel similarity, as a percentage. The Indel
  distance is \<open>len s1 + len s2 - 2 * lcs\<close>; two empty strings are 100 percent similar.
\<close>

definition ratio :: "string \<Rightarrow> string \<Rightarrow> real" where
  "ratio s1 s2 =
     (let maximum = length s1 + length s2;
          dist = maximum - 2 * lcs s1 s2;
          norm_dist = (if maximum = 0 then 0 else real dist / real maximum)
      in (1 - norm_dist) * 100)"

text \<open>Storing a score in a matrix of \<^verbatim>\<open>dtype=np.uint8\<close>: rounded to the nearest integer.\<close>

definition to_uint8 :: "real \<Rightarrow> 8 word" where
  "to_uint8 x = word_of_int (round x)"

text \<open>
  \<^verbatim>\<open>process.cdist(choices, [query], scorer=fuzz.ratio, dtype=np.uint8).flatten()\<close>.
\<close>

definition cdist :: "string list \<Rightarrow> string \<Rightarrow> 8 word list" where
  "cdist choices query = map (\<lambda>c. to_uint8 (ratio c query)) choices"

definition calculate_batch_text_similarity :: "cell list \<Rightarrow> string \<Rightarrow> real list" where
  "calculate_batch_text_similarity series query_value =
     (if series = [] \<or> query_value = [] then replicate (length series) 0
      else let processed_query = preprocess_text (Some query_value) in
        if processed_query = [] then replicate (length series) 0
        else map (\<lambda>w. real (unat w) / 100)
               (cdist (preprocess_dataframe_column series) processed_query))"

definition calculate_batch_date_similarity :: "cell list \<Rightarrow> cell \<Rightarrow> real list" where
  "calculate_batch_date_similarity date_series query_date =
     (if date_series = [] \<or> query_date = None \<or> query_date = Some []
      then replicate (length date_series) 0
      else case standardize_date_format query_date of
        None \<Rightarrow> replicate (length date_series) 0
      | Some std_query_date \<Rightarrow>
          map (\<lambda>w. real (unat w) / 100)
            (cdist (map (\<lambda>v. fillna_str (standardize_date_format v)) date_series)
               std_query_date))"

section \<open>Dictionaries\<close>

text \<open>
  A Python \<^verbatim>\<open>dict\<close> is an association list in insertion order: assigning to a key that is
  present replaces its value in place, a new key is appended.
\<close>

fun dict_set :: "('k \<times> 'v) list \<Rightarrow> 'k \<Rightarrow> 'v \<Rightarrow> ('k \<times> 'v) list" where
  "dict_set [] k v = [(k, v)]"
| "dict_set ((k', v') # d) k v = (if k' = k then (k, v) # d else (k', v') # dict_set d k v)"

definition dict_update :: "('k \<times> 'v) list \<Rightarrow> ('k \<times> 'v) list \<Rightarrow> ('k \<times> 'v) list" where
  "dict_update d e = foldl (\<lambda>acc kv. dict_set acc (fst kv) (snd kv)) d e"

definition dict_keys :: "('k \<times> 'v) list \<Rightarrow> 'k list" where
  "dict_keys d = map fst d"

section \<open>Weight resolution (WeightCalculator)\<close>

definition FIELD_MAPPING :: "(string \<times> string) list" where
  "FIELD_MAPPING =
     [(''citizenship_no'', ''Citizenship Number''),
      (''grandfathers_name'', ''Grandfathers Name''),
      (''fathers_name'', ''Fathers Name''),
      (''name'', ''Name''),
      (''dob'', ''DOB''),
      (''account_no'', ''Account Number''),
      (''pan_no'', ''PAN''),
      (''spouse_name'', ''Spouse Name''),
      (''registration_no'', ''Registration'')]"

definition ENTITY_CONDITIONS :: "(string \<times> string list) list" where
  "ENTITY_CONDITIONS =
     [(''institutional'', [''name'', ''pan_no'', ''registration_no'']),
      (''account'', [''name'', ''account_no'']),
      (''individual'', [''name'', ''fathers_name'', ''dob'', ''citizenship_no'',
                        ''grandfathers_name'', ''spouse_name''])]"

text \<open>
  One row of the weightage sheet: the \<^verbatim>\<open>Entity\<close> and \<^verbatim>\<open>Condition\<close> columns and the weight
  columns that exist, a weight of \<open>None\<close> being NaN.
\<close>

record wrow =
  Entity :: string
  Condition :: string
  weight_cells :: "(string \<times> real option) list"

datatype error =
    ValueError_table_empty
  | ValueError_no_conditions
  | ValueError_invalid_entity
  | ValueError_unknown_entity
  | InvalidConditionError

text \<open>\<^verbatim>\<open>str.split(',')\<close> and \<^verbatim>\<open>','.join\<close>.\<close>

fun split_on :: "char \<Rightarrow> string \<Rightarrow> string list" where
  "split_on c [] = [[]]"
| "split_on c (x # xs) =
     (if x = c then [] # split_on c xs
      else case split_on c xs of
             w # ws \<Rightarrow> (x # w) # ws
           | [] \<Rightarrow> [[x]])"

fun join_with :: "string \<Rightarrow> string list \<Rightarrow> string" where
  "join_with sep [] = []"
| "join_with sep [w] = w"
| "join_with sep (w # v # ws) = w @ sep @ join_with sep (v # ws)"

text \<open>\<^verbatim>\<open>_normalize_condition\<close>; the frozen set is the set of the returned list.\<close>

definition normalize_condition :: "string \<Rightarrow> string list" where
  "normalize_condition condition_str =
     (if condition_str = [] then []
      else map (\<lambda>field. py_lower (py_strip field))
             (filter (\<lambda>field. py_strip field \<noteq> []) (split_on CHR '','' condition_str)))"

text \<open>Python's \<^verbatim>\<open>round(x, 2)\<close> on the exact value: to the nearest hundredth, ties to even.\<close>

definition round_half_even :: "real \<Rightarrow> int" where
  "round_half_even x =
     (let f = \<lfloor>x\<rfloor>; d = x - of_int f in
      if d < 1 / 2 then f else if 1 / 2 < d then f + 1 else if even f then f else f + 1)"

definition py_round2 :: "real \<Rightarrow> real" where
  "py_round2 x = of_int (round_half_even (x * 100)) / 100"

text \<open>\<^verbatim>\<open>max(keys, key=...)\<close>: the first key with the largest value.\<close>

fun max_by :: "('k \<Rightarrow> real) \<Rightarrow> 'k \<Rightarrow> 'k list \<Rightarrow> 'k" where
  "max_by f best [] = best"
| "max_by f best (k # ks) = (if f best < f k then max_by f k ks else max_by f best ks)"

definition dict_val :: "(string \<times> real) list \<Rightarrow> string \<Rightarrow> real" where
  "dict_val weights k = (case map_of weights k of Some w \<Rightarrow> w | None \<Rightarrow> 0)"

text \<open>\<^verbatim>\<open>_adjust_for_rounding\<close>; the dictionary is updated in place, here it is returned.\<close>

definition adjust_for_rounding :: "(string \<times> real) list \<Rightarrow> string list \<Rightarrow> (string \<times> real) list" where
  "adjust_for_rounding weights valid_fields =
     (if weights = [] \<or> valid_fields = [] then weights
      else let weight_sum = sum_list (map snd weights) in
        if weight_sum = 0 \<or> py_round2 weight_sum = 1 then weights
        else let diff = py_round2 (1 - weight_sum);
                 valid_weight_fields =
                   filter (\<lambda>k. k \<in> set valid_fields \<and> 0 < dict_val weights k) (dict_keys weights)
             in case valid_weight_fields of
                  [] \<Rightarrow> weights
                | k # ks \<Rightarrow>
                    let max_key = max_by (dict_val weights) k ks
                    in dict_set weights max_key (py_round2 (dict_val weights max_key + diff)))"

text \<open>\<^verbatim>\<open>_get_equal_weights\<close>.\<close>

definition get_equal_weights :: "string list \<Rightarrow> (string \<times> real) list" where
  "get_equal_weights conditions =
     (if conditions = [] then []
      else let count = length conditions;
               weight = py_round2 (1 / real count);
               result = foldl (\<lambda>d cond. dict_set d cond weight) [] conditions
           in adjust_for_rounding result conditions)"

definition excel_name :: "string \<Rightarrow> string" where
  "excel_name cond = (case map_of FIELD_MAPPING cond of Some n \<Rightarrow> n | None \<Rightarrow> [])"

text \<open>
  The loop over \<^verbatim>\<open>valid_conditions\<close> that collects the positive weights of the matched row
  and their total.
\<close>

fun collect_raw ::
  "wrow \<Rightarrow> string list \<Rightarrow> (string \<times> real) list \<times> real \<Rightarrow> (string \<times> real) list \<times> real" where
  "collect_raw row [] acc = acc"
| "collect_raw row (key # keys) (raw_weights, total_weight) =
     (case map_of (weight_cells row) (excel_name key) of
        Some (Some weight) \<Rightarrow>
          if 0 < weight
          then collect_raw row keys (dict_set raw_weights key weight, total_weight + weight)
          else collect_raw row keys (raw_weights, total_weight)
      | _ \<Rightarrow> collect_raw row keys (raw_weights, total_weight))"

text \<open>
  \<^verbatim>\<open>WeightCalculator.get_weights\<close>, the table \<^verbatim>\<open>self.df\<close> given as its list of rows (empty
  when the sheet could not be loaded). Each \<^verbatim>\<open>raise\<close> is a result on the left.
\<close>

definition get_weights :: "wrow list \<Rightarrow> string \<Rightarrow> string list \<Rightarrow> error + (string \<times> real) list" where
  "get_weights df entity0 conditions =
     (if df = [] then Inl ValueError_table_empty
      else if conditions = [] then Inl ValueError_no_conditions
      else if entity0 = [] then Inl ValueError_invalid_entity
      else let entity = py_lower (py_strip entity0) in
        case map_of ENTITY_CONDITIONS entity of
          None \<Rightarrow> Inl ValueError_unknown_entity
        | Some entity_specific_conditions \<Rightarrow>
            let valid_conditions =
                  filter (\<lambda>cond. cond \<in> set (dict_keys FIELD_MAPPING)
                                 \<and> cond \<in> set entity_specific_conditions) conditions
            in if valid_conditions = [] then Inl InvalidConditionError
               else
                 let excel_conditions = map excel_name valid_conditions;
                     condition_set = normalize_condition (join_with '','' excel_conditions);
                     matches =
                       filter (\<lambda>r. py_lower (Entity r) = entity
                                    \<and> set (normalize_condition (Condition r)) = set condition_set) df
                 in case matches of
                      [] \<Rightarrow> Inr (get_equal_weights valid_conditions)
                    | row # _ \<Rightarrow>
                        let raw = collect_raw row valid_conditions ([], 0);
                            raw_weights = fst raw;
                            total_weight = snd raw
                        in if total_weight = 0 then Inr (get_equal_weights valid_conditions)
                           else
                             let normalized_weights =
                                   map (\<lambda>kw. (fst kw, py_round2 (snd kw / total_weight)))
                                     raw_weights;
                                 normalized_weights =
                                   foldl (\<lambda>d key.
                                            if key \<in> set entity_specific_conditions
                                               \<and> key \<notin> set (dict_keys d)
                                            then dict_set d key 0 else d)
                                     normalized_weights conditions
                             in Inr (adjust_for_rounding normalized_weights valid_conditions))"

section \<open>Records and data frames\<close>

text \<open>
  A value of the query record: \<^verbatim>\<open>None\<close>, a scalar (held as its \<^verbatim>\<open>str\<close>), or a nested
  dictionary of scalars such as \<^verbatim>\<open>individual_details\<close>.
\<close>

datatype pyval = VNone | VStr string | VDict "(string \<times> cell) list"

type_synonym pydict = "(string \<times> pyval) list"

definition truthy :: "pyval \<Rightarrow> bool" where
  "truthy v = (case v of VNone \<Rightarrow> False | VStr s \<Rightarrow> s \<noteq> [] | VDict d \<Rightarrow> d \<noteq> [])"

definition isna :: "pyval \<Rightarrow> bool" where
  "isna v = (v = VNone)"

definition cell_val :: "cell \<Rightarrow> pyval" where
  "cell_val c = (case c of None \<Rightarrow> VNone | Some s \<Rightarrow> VStr s)"

definition repr_cell :: "cell \<Rightarrow> string" where
  "repr_cell c = (case c of None \<Rightarrow> ''None'' | Some s \<Rightarrow> [CHR 0x27] @ s @ [CHR 0x27])"

text \<open>
  \<^verbatim>\<open>str(value)\<close>. The text of a dictionary is exact for keys and values without quotes,
  backslashes and control characters.
\<close>

definition py_str :: "pyval \<Rightarrow> string" where
  "py_str v =
     (case v of
        VNone \<Rightarrow> ''None''
      | VStr s \<Rightarrow> s
      | VDict d \<Rightarrow>
          ''{'' @ join_with '', '' (map (\<lambda>kv. repr_cell (Some (fst kv)) @ '': '' @ repr_cell (snd kv)) d)
          @ ''}'')"

text \<open>\<^verbatim>\<open>record.get(key)\<close>.\<close>

definition rec_get :: "pydict \<Rightarrow> string \<Rightarrow> pyval" where
  "rec_get d k = (case map_of d k of Some v \<Rightarrow> v | None \<Rightarrow> VNone)"

text \<open>
  A row holds its text cells and, once scored, its numeric cells; a frame has its column
  names and its rows in order.
\<close>

record row =
  cells :: "(string \<times> cell) list"
  nums :: "(string \<times> real) list"

record frame =
  columns :: "string list"
  rows :: "row list"

definition empty_frame :: frame where
  "empty_frame = \<lparr>columns = [], rows = []\<rparr>"

text \<open>\<^verbatim>\<open>DataFrame.empty\<close>: an axis of length zero.\<close>

definition df_empty :: "frame \<Rightarrow> bool" where
  "df_empty f = (columns f = [] \<or> rows f = [])"

definition row_cell :: "string \<Rightarrow> row \<Rightarrow> cell" where
  "row_cell c r = (case map_of (cells r) c of Some v \<Rightarrow> v | None \<Rightarrow> None)"

text \<open>\<^verbatim>\<open>frame[col]\<close>, read and assigned, and \<^verbatim>\<open>frame[mask]\<close>.\<close>

definition col_values :: "frame \<Rightarrow> string \<Rightarrow> cell list" where
  "col_values f c = map (row_cell c) (rows f)"

definition set_col :: "frame \<Rightarrow> string \<Rightarrow> cell list \<Rightarrow> frame" where
  "set_col f c vals =
     f\<lparr>columns := (if c \<in> set (columns f) then columns f else columns f @ [c]),
       rows := map (\<lambda>rv. (fst rv)\<lparr>cells := dict_set (cells (fst rv)) c (snd rv)\<rparr>)
                 (zip (rows f) vals)\<rparr>"

definition set_num_col :: "frame \<Rightarrow> string \<Rightarrow> real list \<Rightarrow> frame" where
  "set_num_col f c vals =
     f\<lparr>columns := (if c \<in> set (columns f) then columns f else columns f @ [c]),
       rows := map (\<lambda>rv. (fst rv)\<lparr>nums := dict_set (nums (fst rv)) c (snd rv)\<rparr>)
                 (zip (rows f) vals)\<rparr>"

definition select :: "bool list \<Rightarrow> 'a list \<Rightarrow> 'a list" where
  "select msk xs = map fst (filter snd (zip xs msk))"

definition mask_rows :: "frame \<Rightarrow> bool list \<Rightarrow> frame" where
  "mask_rows f msk = f\<lparr>rows := select msk (rows f)\<rparr>"

text \<open>\<^verbatim>\<open>astype(str)\<close> on a cell (NaN prints as \<^verbatim>\<open>nan\<close>) and \<^verbatim>\<open>str.zfill\<close>.\<close>

definition astype_str :: "cell \<Rightarrow> string" where
  "astype_str v = (case v of None \<Rightarrow> ''nan'' | Some s \<Rightarrow> s)"

definition zfill :: "nat \<Rightarrow> string \<Rightarrow> string" where
  "zfill width s =
     (if width \<le> length s then s
      else case s of
             c # r \<Rightarrow>
               if c = CHR ''+'' \<or> c = CHR ''-''
               then c # replicate (width - length s) CHR ''0'' @ r
               else replicate (width - length s) CHR ''0'' @ s
           | [] \<Rightarrow> replicate width CHR ''0'')"

section \<open>The matching engine (FuzzyMatcherComponent)\<close>

text \<open>
  Field mappings: standard field to (CBS column, source field). The two mappings, the
  result limit, the descending sort of pandas on \<^verbatim>\<open>total_score\<close> and the text of a weight
  dictionary are not fixed by the component: they are its environment.
\<close>

type_synonym field_mapping = "(string \<times> (string \<times> string)) list"

record env =
  INDIVIDUAL_FIELD_MAPPING :: field_mapping
  INSTITUTION_FIELD_MAPPING :: field_mapping
  MAX_MATCHES_TO_STORE :: nat
  sort_values_desc :: "row list \<Rightarrow> row list"
  str_weights :: "(string \<times> real) list \<Rightarrow> string"

definition MAX_CANDIDATES_AFTER_PREFILTER :: nat where
  "MAX_CANDIDATES_AFTER_PREFILTER = 100"

definition determine_entity_type :: "pydict \<Rightarrow> string" where
  "determine_entity_type record =
     (let fallback =
            (if truthy (rec_get record ''company_registration_number'')
                \<or> truthy (rec_get record ''company_name'')
             then ''institution'' else ''individual'')
      in case rec_get record ''entity_type'' of
           VStr s \<Rightarrow> if s \<noteq> [] then py_lower s else fallback
         | _ \<Rightarrow> fallback)"

definition get_available_criteria :: "pydict \<Rightarrow> string list" where
  "get_available_criteria mapped_record =
     map fst (filter (\<lambda>cv. \<not> isna (snd cv) \<and> truthy (snd cv)) mapped_record)"

text \<open>
  \<^verbatim>\<open>_get_normalized_weights\<close>: any exception of the weight calculator is caught and
  replaced by equal weights.
\<close>

definition get_normalized_weights :: "wrow list \<Rightarrow> pydict \<Rightarrow> string list \<Rightarrow> (string \<times> real) list" where
  "get_normalized_weights weightage_df record available_criteria =
     (case get_weights weightage_df (determine_entity_type record) available_criteria of
        Inr weights \<Rightarrow> weights
      | Inl e \<Rightarrow>
          if available_criteria = [] then []
          else foldl (\<lambda>d crit. dict_set d crit (1 / real (length available_criteria)))
                 [] available_criteria)"

text \<open>Steps 2 and 3 of \<^verbatim>\<open>match\<close>: flatten the nested details, then map to standard fields.\<close>

definition flatten_record :: "string \<Rightarrow> pydict \<Rightarrow> pydict" where
  "flatten_record entity_type source_record =
     (let details =
            (if entity_type = ''individual'' then rec_get source_record ''individual_details''
             else if entity_type = ''institution'' then rec_get source_record ''institution_details''
             else VNone)
      in case details of
           VDict d \<Rightarrow> dict_update source_record (map (\<lambda>kv. (fst kv, cell_val (snd kv))) d)
         | _ \<Rightarrow> source_record)"

definition map_record :: "field_mapping \<Rightarrow> pydict \<Rightarrow> pydict" where
  "map_record fm flat_source_record =
     (let source_dict_lower =
            foldl (\<lambda>d k. dict_set d (py_lower k) k) []
              (filter (\<lambda>k. k \<noteq> []) (dict_keys flat_source_record))
      in foldl (\<lambda>mapped_record entry.
                  case map_of source_dict_lower (py_lower (snd (snd entry))) of
                    Some original_key \<Rightarrow>
                      dict_set mapped_record (fst entry) (rec_get flat_source_record original_key)
                  | None \<Rightarrow> mapped_record)
           [] fm)"

definition cbs_field_of :: "field_mapping \<Rightarrow> string \<Rightarrow> string" where
  "cbs_field_of fm field = (case map_of fm field of Some cs \<Rightarrow> fst cs | None \<Rightarrow> [])"

text \<open>
  The test that skips a field in the prefilter and in the scoring loop: no CBS column
  name, an absent or empty source value, or a column the frame does not have.
\<close>

definition field_usable :: "field_mapping \<Rightarrow> pydict \<Rightarrow> string list \<Rightarrow> string \<Rightarrow> bool" where
  "field_usable fm mapped_record cols field =
     (let cbs_field = cbs_field_of fm field; source_value = rec_get mapped_record field
      in cbs_field \<noteq> [] \<and> \<not> isna source_value \<and> source_value \<noteq> VStr []
         \<and> cbs_field \<in> set cols)"

definition text_query :: "string \<Rightarrow> pyval \<Rightarrow> string" where
  "text_query field source_value =
     (if field = ''account_no'' then zfill 16 (py_str source_value) else py_str source_value)"

definition prefilter_fields :: "(string \<times> real) list" where
  "prefilter_fields =
     [(''account_no'', 0.7), (''citizenship_no'', 0.4), (''registration_no'', 0.5),
      (''name'', 0.5)]"

text \<open>The prefilter loop; \<^verbatim>\<open>continue\<close> goes on with the same frame, \<^verbatim>\<open>break\<close> returns.\<close>

fun prefilter ::
  "field_mapping \<Rightarrow> pydict \<Rightarrow> string list \<Rightarrow> (string \<times> real) list \<Rightarrow> frame \<Rightarrow> frame" where
  "prefilter fm mapped_record available_criteria [] potential_matches = potential_matches"
| "prefilter fm mapped_record available_criteria ((field, threshold) # rest) potential_matches =
     (if field \<notin> set available_criteria \<or> df_empty potential_matches
      then prefilter fm mapped_record available_criteria rest potential_matches
      else if \<not> field_usable fm mapped_record (columns potential_matches) field
      then prefilter fm mapped_record available_criteria rest potential_matches
      else
        let similarities =
              calculate_batch_text_similarity
                (col_values potential_matches (cbs_field_of fm field))
                (text_query field (rec_get mapped_record field));
            filtered = mask_rows potential_matches (map (\<lambda>s. threshold \<le> s) similarities)
        in if length (rows filtered) \<le> MAX_CANDIDATES_AFTER_PREFILTER then filtered
           else prefilter fm mapped_record available_criteria rest filtered)"

definition date_criteria :: "string list" where
  "date_criteria = [''citizenship_issue_date'', ''registration_date'', ''pan_issue_date'', ''dob'']"

definition date_query :: "pyval \<Rightarrow> cell" where
  "date_query source_value =
     (case source_value of VNone \<Rightarrow> None | v \<Rightarrow> Some (py_str v))"

text \<open>The scoring loop over the available criteria, building \<^verbatim>\<open>similarity_scores\<close>.\<close>

definition similarity_scores ::
  "field_mapping \<Rightarrow> pydict \<Rightarrow> string list \<Rightarrow> frame \<Rightarrow> (string \<times> real list) list" where
  "similarity_scores fm mapped_record available_criteria potential_matches =
     foldl (\<lambda>scores criterion.
              if \<not> field_usable fm mapped_record (columns potential_matches) criterion then scores
              else if criterion \<in> set date_criteria
              then dict_set scores criterion
                     (calculate_batch_date_similarity
                        (col_values potential_matches (cbs_field_of fm criterion))
                        (date_query (rec_get mapped_record criterion)))
              else dict_set scores criterion
                     (calculate_batch_text_similarity
                        (col_values potential_matches (cbs_field_of fm criterion))
                        (text_query criterion (rec_get mapped_record criterion))))
       [] available_criteria"

text \<open>Step 7: the weighted sum, accumulated over \<^verbatim>\<open>weights.items()\<close>.\<close>

definition total_scores ::
  "(string \<times> real) list \<Rightarrow> (string \<times> real list) list \<Rightarrow> nat \<Rightarrow> real list" where
  "total_scores weights scores n =
     foldl (\<lambda>total cw.
              case map_of scores (fst cw) of
                Some sims \<Rightarrow> map (\<lambda>ts. fst ts + snd ts * snd cw) (zip total sims)
              | None \<Rightarrow> total)
       (replicate n 0) weights"

definition total_score_of :: "row \<Rightarrow> real" where
  "total_score_of r = (case map_of (nums r) ''total_score'' of Some t \<Rightarrow> t | None \<Rightarrow> 0)"

text \<open>
  Step 8, formatting: the total, the status, the weights and each field's similarity are
  attached to the rows that passed; \<open>keep\<close> is the mask of the final threshold.
\<close>

definition attach_scores ::
  "env \<Rightarrow> string list \<Rightarrow> (string \<times> real) list \<Rightarrow> (string \<times> real list) list \<Rightarrow> bool list
     \<Rightarrow> real list \<Rightarrow> frame \<Rightarrow> frame" where
  "attach_scores E available_criteria weights scores keep totals matches0 =
     (let matches = set_num_col matches0 ''total_score'' (select keep totals);
          matches = set_col matches ''match_status''
                      (replicate (length (rows matches)) (Some ''Matched''));
          matches = set_col matches ''criteria''
                      (replicate (length (rows matches)) (Some (str_weights E weights)))
      in foldl (\<lambda>m criterion.
                  case map_of scores criterion of
                    Some sims \<Rightarrow> set_num_col m (criterion @ ''_score'') (select keep sims)
                  | None \<Rightarrow> m)
           matches available_criteria)"

text \<open>
  Steps 6 to 8 on the candidates that are left: score, apply the final threshold, attach
  the scores, sort and truncate. The empty frame is \<^verbatim>\<open>pd.DataFrame()\<close>.
\<close>

definition score_and_rank ::
  "env \<Rightarrow> field_mapping \<Rightarrow> pydict \<Rightarrow> string list \<Rightarrow> (string \<times> real) list \<Rightarrow> real \<Rightarrow> frame \<Rightarrow> frame" where
  "score_and_rank E fm mapped_record available_criteria weights final_threshold potential_matches =
     (let scores = similarity_scores fm mapped_record available_criteria potential_matches;
          totals = total_scores weights scores (length (rows potential_matches));
          keep = map (\<lambda>t. final_threshold \<le> t) totals;
          matches = mask_rows potential_matches keep
      in if df_empty matches then empty_frame
         else
           let matches = attach_scores E available_criteria weights scores keep totals matches
           in matches\<lparr>rows := take (MAX_MATCHES_TO_STORE E) (sort_values_desc E (rows matches))\<rparr>)"

text \<open>Step 5, before the loop: the account column of the copy is zero-padded.\<close>

definition pad_account_column :: "field_mapping \<Rightarrow> frame \<Rightarrow> frame" where
  "pad_account_column fm potential_matches =
     (let account_cbs_field = cbs_field_of fm ''account_no''
      in if account_cbs_field \<noteq> [] \<and> account_cbs_field \<in> set (columns potential_matches)
         then set_col potential_matches account_cbs_field
                (map (\<lambda>v. Some (zfill 16 (astype_str v)))
                   (col_values potential_matches account_cbs_field))
         else potential_matches)"

text \<open>
  \<^verbatim>\<open>match\<close> with the list of prefilter fields as an argument; the component's \<^verbatim>\<open>match\<close>
  runs it with its fixed list, and the empty list gives the scoring of every row.
\<close>

definition match_with ::
  "(string \<times> real) list \<Rightarrow> env \<Rightarrow> wrow list \<Rightarrow> frame \<Rightarrow> pydict \<Rightarrow> real \<Rightarrow> frame" where
  "match_with pf E weightage_df cbs_data source_record final_threshold =
     (if df_empty cbs_data then empty_frame
      else
        let entity_type = determine_entity_type source_record;
            fm = (if entity_type = ''individual'' then INDIVIDUAL_FIELD_MAPPING E
                  else INSTITUTION_FIELD_MAPPING E);
            flat_source_record = flatten_record entity_type source_record;
            mapped_record = map_record fm flat_source_record;
            available_criteria = get_available_criteria mapped_record
        in if available_criteria = [] then empty_frame
           else
             let weights = get_normalized_weights weightage_df source_record available_criteria;
                 potential_matches = pad_account_column fm cbs_data;
                 potential_matches = prefilter fm mapped_record available_criteria pf potential_matches
             in if df_empty potential_matches then empty_frame
                else score_and_rank E fm mapped_record available_criteria weights
                       final_threshold potential_matches)"

definition match :: "env \<Rightarrow> wrow list \<Rightarrow> frame \<Rightarrow> pydict \<Rightarrow> real \<Rightarrow> frame" where
  "match = match_with prefilter_fields"

text \<open>
  \<^verbatim>\<open>get_ticket_matches\<close>: the status, the matches with their ticket name, the ticket name.
  The entity type is first written into the query record.
\<close>

definition get_ticket_matches ::
  "env \<Rightarrow> wrow list \<Rightarrow> frame \<Rightarrow> pydict \<Rightarrow> string \<Rightarrow> real \<Rightarrow> string \<times> frame \<times> string" where
  "get_ticket_matches E weightage_df cbs_data source_data0 ticket_id final_threshold =
     (let source_data = dict_set source_data0 ''entity_type''
                          (VStr (determine_entity_type source_data0));
          entity_type = py_str (rec_get source_data ''entity_type'');
          name_field = (if entity_type = ''individual'' then ''person_name'' else ''company_name'');
          flat_source_record = flatten_record entity_type source_data;
          ticket_name = ''ticket_'' @ ticket_id @ ''_''
                        @ replace_space
                            (case map_of flat_source_record name_field of
                               Some v \<Rightarrow> py_str v | None \<Rightarrow> [])
          ;
          matches = match E weightage_df cbs_data source_data final_threshold
      in if df_empty matches then (''Unmatched'', empty_frame, ticket_name)
         else (''Matched'',
               set_col matches ''ticket_name'' (replicate (length (rows matches)) (Some ticket_name)),
               ticket_name))"

text \<open>A stable descending sort on \<^verbatim>\<open>total_score\<close>, one possible \<open>sort_values_desc\<close>.\<close>

definition stable_sort_desc :: "row list \<Rightarrow> row list" where
  "stable_sort_desc rs = sort_key (\<lambda>r. - total_score_of r) rs"

section \<open>Frames as objects\<close>

text \<open>
  For the effect of \<^verbatim>\<open>match\<close> on its arguments a frame is an object in a store, and a
  variable of the source holds its address. \<^verbatim>\<open>pd.DataFrame()\<close>, \<^verbatim>\<open>copy\<close>, \<^verbatim>\<open>frame[mask]\<close>,
  \<^verbatim>\<open>sort_values\<close> and \<^verbatim>\<open>head\<close> allocate a new frame; \<^verbatim>\<open>frame[col] = values\<close> writes to the
  frame at the address. The table of the weight calculator, \<^verbatim>\<open>self.weightage_manager.df\<close>,
  is a component of the store; \<^verbatim>\<open>get_weights\<close> only reads it.
\<close>

record store =
  frames :: "nat \<Rightarrow> frame option"
  next_ref :: nat
  weightage_manager_df :: "wrow list"

definition frame_at :: "store \<Rightarrow> nat \<Rightarrow> frame" where
  "frame_at s r = (case frames s r of Some f \<Rightarrow> f | None \<Rightarrow> empty_frame)"

definition new_frame :: "frame \<Rightarrow> store \<Rightarrow> nat \<times> store" where
  "new_frame f s =
     (next_ref s, s\<lparr>frames := (frames s)(next_ref s \<mapsto> f), next_ref := Suc (next_ref s)\<rparr>)"

definition df_write :: "nat \<Rightarrow> (frame \<Rightarrow> frame) \<Rightarrow> store \<Rightarrow> store" where
  "df_write r g s = s\<lparr>frames := (frames s)(r \<mapsto> g (frame_at s r))\<rparr>"

definition df_copy :: "nat \<Rightarrow> store \<Rightarrow> nat \<times> store" where
  "df_copy r s = new_frame (frame_at s r) s"

definition df_mask :: "nat \<Rightarrow> bool list \<Rightarrow> store \<Rightarrow> nat \<times> store" where
  "df_mask r msk s = new_frame (mask_rows (frame_at s r) msk) s"

definition df_setitem :: "nat \<Rightarrow> string \<Rightarrow> cell list \<Rightarrow> store \<Rightarrow> store" where
  "df_setitem r c vals s = df_write r (\<lambda>f. set_col f c vals) s"

definition df_setitem_num :: "nat \<Rightarrow> string \<Rightarrow> real list \<Rightarrow> store \<Rightarrow> store" where
  "df_setitem_num r c vals s = df_write r (\<lambda>f. set_num_col f c vals) s"

definition df_sort_values :: "env \<Rightarrow> nat \<Rightarrow> store \<Rightarrow> nat \<times> store" where
  "df_sort_values E r s =
     new_frame ((frame_at s r)\<lparr>rows := sort_values_desc E (rows (frame_at s r))\<rparr>) s"

definition df_head :: "nat \<Rightarrow> nat \<Rightarrow> store \<Rightarrow> nat \<times> store" where
  "df_head n r s = new_frame ((frame_at s r)\<lparr>rows := take n (rows (frame_at s r))\<rparr>) s"

definition pad_account_column_store :: "field_mapping \<Rightarrow> nat \<Rightarrow> store \<Rightarrow> store" where
  "pad_account_column_store fm potential_matches s =
     (let account_cbs_field = cbs_field_of fm ''account_no''
      in if account_cbs_field \<noteq> []
            \<and> account_cbs_field \<in> set (columns (frame_at s potential_matches))
         then df_setitem potential_matches account_cbs_field
                (map (\<lambda>v. Some (zfill 16 (astype_str v)))
                   (col_values (frame_at s potential_matches) account_cbs_field)) s
         else s)"

fun prefilter_store ::
  "field_mapping \<Rightarrow> pydict \<Rightarrow> string list \<Rightarrow> (string \<times> real) list \<Rightarrow> nat \<Rightarrow> store
     \<Rightarrow> nat \<times> store" where
  "prefilter_store fm mapped_record available_criteria [] potential_matches s =
     (potential_matches, s)"
| "prefilter_store fm mapped_record available_criteria ((field, threshold) # rest)
     potential_matches s =
     (if field \<notin> set available_criteria \<or> df_empty (frame_at s potential_matches)
      then prefilter_store fm mapped_record available_criteria rest potential_matches s
      else if \<not> field_usable fm mapped_record (columns (frame_at s potential_matches)) field
      then prefilter_store fm mapped_record available_criteria rest potential_matches s
      else
        let similarities =
              calculate_batch_text_similarity
                (col_values (frame_at s potential_matches) (cbs_field_of fm field))
                (text_query field (rec_get mapped_record field));
            selected = df_mask potential_matches (map (\<lambda>x. threshold \<le> x) similarities) s;
            filtered = df_copy (fst selected) (snd selected)
        in if length (rows (frame_at (snd filtered) (fst filtered)))
                \<le> MAX_CANDIDATES_AFTER_PREFILTER
           then filtered
           else prefilter_store fm mapped_record available_criteria rest
                  (fst filtered) (snd filtered))"

definition attach_scores_store ::
  "env \<Rightarrow> string list \<Rightarrow> (string \<times> real) list \<Rightarrow> (string \<times> real list) list \<Rightarrow> bool list
     \<Rightarrow> real list \<Rightarrow> nat \<Rightarrow> store \<Rightarrow> store" where
  "attach_scores_store E available_criteria weights scores keep totals matches s0 =
     (let s1 = df_setitem_num matches ''total_score'' (select keep totals) s0;
          s2 = df_setitem matches ''match_status''
                 (replicate (length (rows (frame_at s1 matches))) (Some ''Matched'')) s1;
          s3 = df_setitem matches ''criteria''
                 (replicate (length (rows (frame_at s2 matches))) (Some (str_weights E weights))) s2
      in foldl (\<lambda>s criterion.
                  case map_of scores criterion of
                    Some sims \<Rightarrow> df_setitem_num matches (criterion @ ''_score'') (select keep sims) s
                  | None \<Rightarrow> s)
           s3 available_criteria)"

definition score_and_rank_store ::
  "env \<Rightarrow> field_mapping \<Rightarrow> pydict \<Rightarrow> string list \<Rightarrow> (string \<times> real) list \<Rightarrow> real \<Rightarrow> nat
     \<Rightarrow> store \<Rightarrow> nat \<times> store" where
  "score_and_rank_store E fm mapped_record available_criteria weights final_threshold
     potential_matches s =
     (let scores = similarity_scores fm mapped_record available_criteria
                     (frame_at s potential_matches);
          totals = total_scores weights scores (length (rows (frame_at s potential_matches)));
          keep = map (\<lambda>t. final_threshold \<le> t) totals;
          selected = df_mask potential_matches keep s;
          matches = df_copy (fst selected) (snd selected)
      in if df_empty (frame_at (snd matches) (fst matches))
         then new_frame empty_frame (snd matches)
         else
           let s1 = attach_scores_store E available_criteria weights scores keep totals
                      (fst matches) (snd matches);
               sorted = df_sort_values E (fst matches) s1
           in df_head (MAX_MATCHES_TO_STORE E) (fst sorted) (snd sorted))"

definition match_store :: "env \<Rightarrow> nat \<Rightarrow> pydict \<Rightarrow> real \<Rightarrow> store \<Rightarrow> nat \<times> store" where
  "match_store E cbs_data source_record final_threshold s =
     (if df_empty (frame_at s cbs_data) then new_frame empty_frame s
      else
        let entity_type = determine_entity_type source_record;
            fm = (if entity_type = ''individual'' then INDIVIDUAL_FIELD_MAPPING E
                  else INSTITUTION_FIELD_MAPPING E);
            flat_source_record = flatten_record entity_type source_record;
            mapped_record = map_record fm flat_source_record;
            available_criteria = get_available_criteria mapped_record
        in if available_criteria = [] then new_frame empty_frame s
           else
             let weights = get_normalized_weights (weightage_manager_df s) source_record
                             available_criteria;
                 copied = df_copy cbs_data s;
                 s1 = pad_account_column_store fm (fst copied) (snd copied);
                 filtered = prefilter_store fm mapped_record available_criteria
                              prefilter_fields (fst copied) s1
             in if df_empty (frame_at (snd filtered) (fst filtered))
                then new_frame empty_frame (snd filtered)
                else score_and_rank_store E fm mapped_record available_criteria weights
                       final_threshold (fst filtered) (snd filtered))"

section \<open>Example data\<close>

text \<open>
  A small environment, weight table and reference frame on which the theorems are
  instantiated. The two field mappings take their entries from \<^verbatim>\<open>Constants.FIELD_MAPPING\<close>.
\<close>

definition ex_env :: "nat \<Rightarrow> env" where
  "ex_env n =
     \<lparr>INDIVIDUAL_FIELD_MAPPING =
        [(''name'', (''ACCT_NAME'', ''name'')),
         (''citizenship_no'', (''CTZ_NUMBER'', ''citizenship_no'')),
         (''account_no'', (''ACCT_NUMBER'', ''account_no''))],
      INSTITUTION_FIELD_MAPPING =
        [(''name'', (''ACCT_NAME'', ''name'')),
         (''registration_no'', (''REGISTRATION'', ''registration_no''))],
      MAX_MATCHES_TO_STORE = n,
      sort_values_desc = stable_sort_desc,
      str_weights = (\<lambda>w. [])\<rparr>"

definition ex_table :: "wrow list" where
  "ex_table =
     [\<lparr>Entity = ''Individual'', Condition = ''Name, Citizenship Number'',
       weight_cells = [(''Name'', Some 40), (''Citizenship Number'', Some 60), (''DOB'', None)]\<rparr>]"

definition ex_row :: "string \<Rightarrow> string \<Rightarrow> string \<Rightarrow> row" where
  "ex_row name ctz acct =
     \<lparr>cells = [(''ACCT_NAME'', Some name), (''CTZ_NUMBER'', Some ctz), (''ACCT_NUMBER'', Some acct)],
      nums = []\<rparr>"

definition ex_cbs :: "row list \<Rightarrow> frame" where
  "ex_cbs rs = \<lparr>columns = [''ACCT_NAME'', ''CTZ_NUMBER'', ''ACCT_NUMBER''], rows = rs\<rparr>"

definition ex_rows :: "row list" where
  "ex_rows =
     [ex_row ''Ram Bahadur'' ''12-34'' ''123'', ex_row ''Sita'' ''99'' ''5'',
      ex_row ''Ram  Bahadur'' ''1234'' ''77'']"

definition ex_query :: pydict where
  "ex_query = [(''name'', VStr ''Ram Bahadur''), (''citizenship_no'', VStr ''1234'')]"

text \<open>A store with the reference frame at address 0 and the weight table.\<close>

definition ex_store :: store where
  "ex_store = \<lparr>frames = [0 \<mapsto> ex_cbs ex_rows], next_ref = 1, weightage_manager_df = ex_table\<rparr>"

section \<open>Auxiliary notions\<close>

text \<open>
  The values that \<^verbatim>\<open>match\<close> computes from the query record before it looks at the data:
  the field mapping, the mapped record, the available criteria and the weights.
\<close>

definition mapping_of :: "env \<Rightarrow> pydict \<Rightarrow> field_mapping" where
  "mapping_of E source_record =
     (if determine_entity_type source_record = ''individual'' then INDIVIDUAL_FIELD_MAPPING E
      else INSTITUTION_FIELD_MAPPING E)"

definition mapped_of :: "env \<Rightarrow> pydict \<Rightarrow> pydict" where
  "mapped_of E source_record =
     map_record (mapping_of E source_record)
       (flatten_record (determine_entity_type source_record) source_record)"

definition criteria_of :: "env \<Rightarrow> pydict \<Rightarrow> string list" where
  "criteria_of E source_record = get_available_criteria (mapped_of E source_record)"

definition weights_of :: "env \<Rightarrow> wrow list \<Rightarrow> pydict \<Rightarrow> (string \<times> real) list" where
  "weights_of E weightage_df source_record =
     get_normalized_weights weightage_df source_record (criteria_of E source_record)"

text \<open>The candidates after the cascade over the fields \<open>pf\<close>.\<close>

definition candidates_of :: "(string \<times> real) list \<Rightarrow> env \<Rightarrow> frame \<Rightarrow> pydict \<Rightarrow> frame" where
  "candidates_of pf E cbs_data source_record =
     prefilter (mapping_of E source_record) (mapped_of E source_record)
       (criteria_of E source_record) pf
       (pad_account_column (mapping_of E source_record) cbs_data)"

text \<open>The similarity of one row on one field, as the batch functions compute it.\<close>

definition text_sim :: "string \<Rightarrow> cell \<Rightarrow> real" where
  "text_sim query_value v =
     (if query_value = [] then 0
      else let processed_query = preprocess_text (Some query_value) in
        if processed_query = [] then 0
        else real (unat (to_uint8 (ratio (preprocess_text (Some (fillna_str v))) processed_query)))
             / 100)"

definition date_sim :: "cell \<Rightarrow> cell \<Rightarrow> real" where
  "date_sim query_date v =
     (if query_date = None \<or> query_date = Some [] then 0
      else case standardize_date_format query_date of
             None \<Rightarrow> 0
           | Some std_query_date \<Rightarrow>
               real (unat (to_uint8 (ratio (fillna_str (standardize_date_format v)) std_query_date)))
               / 100)"

definition row_sim :: "field_mapping \<Rightarrow> pydict \<Rightarrow> string \<Rightarrow> row \<Rightarrow> real" where
  "row_sim fm mapped_record criterion r =
     (if criterion \<in> set date_criteria
      then date_sim (date_query (rec_get mapped_record criterion))
             (row_cell (cbs_field_of fm criterion) r)
      else text_sim (text_query criterion (rec_get mapped_record criterion))
             (row_cell (cbs_field_of fm criterion) r))"

text \<open>
  The total score of one row: the sum over the weight entries whose criterion is scored,
  that is, available and usable on the columns \<open>cols\<close>.
\<close>

definition scored :: "field_mapping \<Rightarrow> pydict \<Rightarrow> string list \<Rightarrow> string list \<Rightarrow> string \<Rightarrow> bool" where
  "scored fm mapped_record available_criteria cols criterion =
     (criterion \<in> set available_criteria \<and> field_usable fm mapped_record cols criterion)"

definition row_total ::
  "field_mapping \<Rightarrow> pydict \<Rightarrow> string list \<Rightarrow> string list \<Rightarrow> (string \<times> real) list \<Rightarrow> row \<Rightarrow> real" where
  "row_total fm mapped_record available_criteria cols weights r =
     sum_list (map (\<lambda>cw. row_sim fm mapped_record (fst cw) r * snd cw)
                 (filter (\<lambda>cw. scored fm mapped_record available_criteria cols (fst cw)) weights))"

text \<open>
  The weight with which a field enters the total, the most that the other scored fields
  can add, and from them the least similarity on the field with which a row can still
  reach the final threshold: the field's contribution threshold.
\<close>

definition field_weight :: "(string \<Rightarrow> bool) \<Rightarrow> (string \<times> real) list \<Rightarrow> string \<Rightarrow> real" where
  "field_weight sc weights field =
     sum_list (map snd (filter (\<lambda>cw. sc (fst cw) \<and> fst cw = field) weights))"

definition others_weight :: "(string \<Rightarrow> bool) \<Rightarrow> (string \<times> real) list \<Rightarrow> string \<Rightarrow> real" where
  "others_weight sc weights field =
     sum_list (map (\<lambda>cw. max 0 (snd cw)) (filter (\<lambda>cw. sc (fst cw) \<and> fst cw \<noteq> field) weights))"

definition contribution_threshold ::
  "(string \<Rightarrow> bool) \<Rightarrow> (string \<times> real) list \<Rightarrow> string \<Rightarrow> real \<Rightarrow> real" where
  "contribution_threshold sc weights field final_threshold =
     (final_threshold - others_weight sc weights field) / field_weight sc weights field"

text \<open>
  The precondition on a list of prefilter fields: every field of the list that the cascade
  can apply has a positive weight and a threshold no larger than its contribution
  threshold.
\<close>

definition thresholds_sound ::
  "(string \<times> real) list \<Rightarrow> env \<Rightarrow> wrow list \<Rightarrow> frame \<Rightarrow> pydict \<Rightarrow> real \<Rightarrow> bool" where
  "thresholds_sound pf E weightage_df cbs_data source_record final_threshold =
     (let sc = scored (mapping_of E source_record) (mapped_of E source_record)
                 (criteria_of E source_record) (columns cbs_data);
          weights = weights_of E weightage_df source_record
      in list_all (\<lambda>ft. sc (fst ft) \<longrightarrow>
                     0 < field_weight sc weights (fst ft)
                     \<and> snd ft \<le> contribution_threshold sc weights (fst ft) final_threshold) pf)"


text \<open>A whole number of hundredths.\<close>

definition is_cent :: "real \<Rightarrow> bool" where
  "is_cent x = (\<exists>k::int. x = of_int k / 100)"

text \<open>A weight dictionary with distinct keys and non-negative two-decimal values.\<close>

definition good_weights :: "(string \<times> real) list \<Rightarrow> bool" where
  "good_weights w = (distinct (dict_keys w) \<and> (\<forall>x \<in> snd ` set w. is_cent x \<and> 0 \<le> x))"

text \<open>
  The result of step 8 seen row by row: what is attached to one row that passed, and the
  columns of the result.
\<close>

definition add_col :: "string list \<Rightarrow> string \<Rightarrow> string list" where
  "add_col cs c = (if c \<in> set cs then cs else cs @ [c])"

definition annotate_row ::
  "env \<Rightarrow> field_mapping \<Rightarrow> pydict \<Rightarrow> string list \<Rightarrow> (string \<times> real) list \<Rightarrow> string list \<Rightarrow> row \<Rightarrow> row" where
  "annotate_row E fm mapped_record available_criteria weights cols r =
     (let r1 = r\<lparr>nums := dict_set (nums r) ''total_score''
                           (row_total fm mapped_record available_criteria cols weights r)\<rparr>;
          r2 = r1\<lparr>cells := dict_set (cells r1) ''match_status'' (Some ''Matched'')\<rparr>;
          r3 = r2\<lparr>cells := dict_set (cells r2) ''criteria'' (Some (str_weights E weights))\<rparr>
      in foldl (\<lambda>r' c. if scored fm mapped_record available_criteria cols c
                        then r'\<lparr>nums := dict_set (nums r') (c @ ''_score'')
                                           (row_sim fm mapped_record c r)\<rparr>
                        else r')
           r3 available_criteria)"

definition annotated_columns ::
  "field_mapping \<Rightarrow> pydict \<Rightarrow> string list \<Rightarrow> string list \<Rightarrow> string list" where
  "annotated_columns fm mapped_record available_criteria cols =
     foldl (\<lambda>cs c. if scored fm mapped_record available_criteria cols c
                    then add_col cs (c @ ''_score'') else cs)
       (add_col (add_col (add_col cols ''total_score'') ''match_status'') ''criteria'')
       available_criteria"

text \<open>The final test of one row, and the rows of the result before sorting.\<close>

definition passes ::
  "env \<Rightarrow> wrow list \<Rightarrow> pydict \<Rightarrow> string list \<Rightarrow> real \<Rightarrow> row \<Rightarrow> bool" where
  "passes E weightage_df source_record cols final_threshold r =
     (final_threshold
        \<le> row_total (mapping_of E source_record) (mapped_of E source_record)
            (criteria_of E source_record) cols (weights_of E weightage_df source_record) r)"

definition matched_rows ::
  "(string \<times> real) list \<Rightarrow> env \<Rightarrow> wrow list \<Rightarrow> frame \<Rightarrow> pydict \<Rightarrow> real \<Rightarrow> row list" where
  "matched_rows pf E weightage_df cbs_data source_record final_threshold =
     map (annotate_row E (mapping_of E source_record) (mapped_of E source_record)
            (criteria_of E source_record) (weights_of E weightage_df source_record)
            (columns cbs_data))
       (filter (passes E weightage_df source_record (columns cbs_data) final_threshold)
          (rows (candidates_of pf E cbs_data source_record)))"

text \<open>
  What is known of \<^verbatim>\<open>sort_values("total_score", ascending=False)\<close> with the default
  algorithm: the rows are rearranged, and the totals descend. Whether equal totals keep
  their order is left open.
\<close>

definition sorts_desc :: "(row list \<Rightarrow> row list) \<Rightarrow> bool" where
  "sorts_desc sorter =
     (\<forall>rs. mset (sorter rs) = mset rs
           \<and> sorted_wrt (\<lambda>a b. total_score_of b \<le> total_score_of a) (sorter rs))"

text \<open>
  Between two stores: the frames at the addresses below \<open>n\<close> and the weight table are the
  same, and no address was given up. An allocating operation returns an address from \<open>n\<close> on
  that holds the frame \<open>f\<close>.
\<close>

definition untouched :: "nat \<Rightarrow> store \<Rightarrow> store \<Rightarrow> bool" where
  "untouched n s s' =
     ((\<forall>r<n. frames s' r = frames s r) \<and> weightage_manager_df s' = weightage_manager_df s
      \<and> next_ref s \<le> next_ref s')"

definition allocates :: "nat \<Rightarrow> store \<Rightarrow> nat \<times> store \<Rightarrow> frame \<Rightarrow> bool" where
  "allocates n s rs f =
     (untouched n s (snd rs) \<and> n \<le> fst rs \<and> frame_at (snd rs) (fst rs) = f)"

section \<open>Text normalisation is not idempotent\<close>

lemma of_char_lower_char:
  "(of_char (lower_char c) :: nat) =
     (if 65 \<le> (of_char c :: nat) \<and> (of_char c :: nat) \<le> 90 then of_char c + 32 else of_char c)"
  by (simp add: lower_char_def Let_def)

lemma is_space_lower_char [simp]: "is_space_char (lower_char c) = is_space_char c"
  unfolding is_space_char_def Let_def of_char_lower_char by auto

lemma lower_char_idem [simp]: "lower_char (lower_char c) = lower_char c"
proof -
  have "(of_char (lower_char (lower_char c)) :: nat) = of_char (lower_char c)"
    unfolding of_char_lower_char by auto
  then show ?thesis by (simp only: of_char_eq_iff)
qed

lemma word_not_space: "is_word_char c \<Longrightarrow> \<not> is_space_char c"
  by (auto simp: is_word_char_def is_space_char_def Let_def)

lemma lower_char_eq_space [simp]: "lower_char c = CHR '' '' \<longleftrightarrow> c = CHR '' ''"
proof -
  have "(of_char (lower_char c) :: nat) = 32 \<longleftrightarrow> (of_char c :: nat) = 32"
    unfolding of_char_lower_char by auto
  moreover have "(of_char (CHR '' '') :: nat) = 32" by simp
  ultimately show ?thesis by (metis of_char_eq_iff)
qed

lemma is_word_lower_char: "is_word_char c \<Longrightarrow> is_word_char (lower_char c)"
  unfolding is_word_char_def Let_def of_char_lower_char by auto

lemma dropWhile_space_lower:
  "dropWhile is_space_char (py_lower s) = py_lower (dropWhile is_space_char s)"
  by (induction s) (auto simp: py_lower_def)

lemma py_strip_lower: "py_strip (py_lower s) = py_lower (py_strip s)"
  by (simp add: py_strip_def py_lower_def dropWhile_map rev_map comp_def)

lemma py_strip_no_space: "\<forall>c \<in> set s. \<not> is_space_char c \<Longrightarrow> py_strip s = s"
proof -
  assume a: "\<forall>c \<in> set s. \<not> is_space_char c"
  have "dropWhile is_space_char s = s" using a by (cases s) auto
  moreover have "dropWhile is_space_char (rev s) = rev s" using a by (cases "rev s") (auto simp: )
  ultimately show ?thesis by (simp add: py_strip_def)
qed

lemma py_strip_ends:
  "py_strip s = [] \<or> (\<not> is_space_char (hd (py_strip s)) \<and> \<not> is_space_char (last (py_strip s)))"
proof (cases "py_strip s = []")
  case True then show ?thesis by simp
next
  case False
  define t where "t = dropWhile is_space_char s"
  define u where "u = dropWhile is_space_char (rev t)"
  have su: "py_strip s = rev u" by (simp add: py_strip_def t_def u_def)
  with False have une: "u \<noteq> []" by simp
  then have tne: "t \<noteq> []" by (auto simp: u_def)
  have "\<not> is_space_char (hd u)" using une unfolding u_def by (rule hd_dropWhile)
  then have l: "\<not> is_space_char (last (py_strip s))" using une by (simp add: su last_rev)
  have "\<not> is_space_char (hd t)" using tne unfolding t_def by (rule hd_dropWhile)
  moreover have "last u = last (rev t)"
  proof -
    have "rev t = takeWhile is_space_char (rev t) @ u" by (simp add: u_def)
    then show ?thesis using une by (metis last_appendR)
  qed
  ultimately have "\<not> is_space_char (hd (py_strip s))" using une tne by (simp add: su hd_rev last_rev)
  with l show ?thesis by simp
qed

lemma py_strip_fix:
  assumes "s = [] \<or> (\<not> is_space_char (hd s) \<and> \<not> is_space_char (last s))"
  shows "py_strip s = s"
proof (cases "s = []")
  case True then show ?thesis by (simp add: py_strip_def)
next
  case False
  with assms have h: "\<not> is_space_char (hd s)" and l: "\<not> is_space_char (last s)" by auto
  have "dropWhile is_space_char s = s" using False h by (cases s) auto
  moreover have "dropWhile is_space_char (rev s) = rev s"
    using False l by (cases "rev s") (auto simp: last_rev[symmetric] hd_rev)
  ultimately show ?thesis by (simp add: py_strip_def)
qed

lemma py_strip_idem: "py_strip (py_strip s) = py_strip s"
  by (rule py_strip_fix) (rule py_strip_ends)

lemma set_py_strip: "set (py_strip s) \<subseteq> set s"
proof -
  have "set (py_strip s) \<subseteq> set (dropWhile is_space_char s)"
    unfolding py_strip_def using set_dropWhileD by fastforce
  also have "\<dots> \<subseteq> set s" using set_dropWhileD by fastforce
  finally show ?thesis .
qed

lemma default_process_chars:
  "c \<in> set (default_process s) \<Longrightarrow> c = CHR '' '' \<or> (is_word_char c \<and> lower_char c = c)"
proof -
  assume "c \<in> set (default_process s)"
  then obtain d where d: "d \<in> set (py_strip (map (\<lambda>c. if is_word_char c then c else CHR '' '') s))"
    and c: "c = lower_char d" by (auto simp: default_process_def py_lower_def)
  from d set_py_strip have "d \<in> set (map (\<lambda>c. if is_word_char c then c else CHR '' '') s)" by blast
  then have "d = CHR '' '' \<or> is_word_char d" by auto
  then show ?thesis using c by (auto simp: is_word_lower_char)
qed

lemma default_process_strip: "py_strip (default_process s) = default_process s"
  by (simp add: default_process_def py_strip_lower py_strip_idem)

lemma default_process_word:
  assumes "\<forall>c \<in> set z. is_word_char c \<and> lower_char c = c"
  shows "default_process z = z"
proof -
  have 1: "map (\<lambda>c. if is_word_char c then c else CHR '' '') z = z"
    using assms by (induction z) auto
  have 2: "py_strip z = z" using assms by (intro py_strip_no_space) (auto dest: word_not_space)
  have 3: "py_lower z = z" using assms by (induction z) (auto simp: py_lower_def)
  show ?thesis by (simp add: default_process_def 1 2 3)
qed

lemma preprocess_text_strip: "py_strip (preprocess_text x) = preprocess_text x"
proof (cases x)
  case None
  then show ?thesis by (simp add: preprocess_text_def py_strip_def)
next
  case (Some t)
  then show ?thesis by (simp add: preprocess_text_def default_process_strip)
qed

lemma preprocess_text_chars:
  "c \<in> set (preprocess_text x) \<Longrightarrow> c = CHR '' '' \<or> (is_word_char c \<and> lower_char c = c)"
  by (cases x) (auto simp: preprocess_text_def dest: default_process_chars)

lemma preprocess_text_twice_aux:
  "preprocess_text (Some (preprocess_text x)) = replace_space (preprocess_text x)"
proof -
  let ?y = "preprocess_text x"
  have "\<forall>c \<in> set (replace_space ?y). is_word_char c \<and> lower_char c = c"
    using preprocess_text_chars[of _ x] by (auto simp: replace_space_def)
  then have "default_process (replace_space ?y) = replace_space ?y"
    by (rule default_process_word)
  moreover have "preprocess_text (Some ?y) = default_process (replace_space (py_strip ?y))"
    by (simp add: preprocess_text_def)
  ultimately show ?thesis by (simp only: preprocess_text_strip)
qed

text \<open>
  C8, as amended: normalising a normalised text deletes the spaces that the first
  normalisation put in place of punctuation and other non-word characters,
  \<open>normalize_text (normalize_text x) = normalize_text x\<close> with every space removed.
  The two agree exactly when \<open>normalize_text x\<close> holds no space.
\<close>

theorem preprocess_text_twice:
  "preprocess_text (Some (preprocess_text x)) = replace_space (preprocess_text x)"
  by (rule preprocess_text_twice_aux)

text \<open>
  C8, as stated (\<open>normalize_text (normalize_text x) = normalize_text x\<close> for every \<open>x\<close>),
  fails at \<open>x = "a-b"\<close>: the first pass gives \<open>"a b"\<close>, the second \<open>"ab"\<close>.
\<close>

theorem preprocess_text_not_idempotent:
  "preprocess_text (Some (preprocess_text (Some ''a-b''))) \<noteq> preprocess_text (Some ''a-b'')"
  by code_simp

section \<open>Date standardisation\<close>







lemma space_not_digit [simp]: "\<not> is_digit CHR '' ''"
  by (simp add: is_digit_def)
































section \<open>Similarity values are whole percents\<close>

lemma lcs_le: "2 * lcs a b \<le> length a + length b"
  by (induction a b rule: lcs.induct) auto

lemma ratio_bounds: "0 \<le> ratio a b \<and> ratio a b \<le> 100"
proof -
  let ?m = "length a + length b"
  let ?d = "?m - 2 * lcs a b"
  have "?d \<le> ?m" by simp
  then have "real ?d \<le> real ?m" by (rule iffD2[OF of_nat_le_iff])
  then have "(if ?m = 0 then 0 else real ?d / real ?m) \<le> 1" by (simp add: divide_le_eq)
  moreover have "0 \<le> (if ?m = 0 then 0 else real ?d / real ?m)" by simp
  ultimately show ?thesis unfolding ratio_def Let_def by auto
qed

lemma unat_to_uint8:
  assumes "0 \<le> x" "x \<le> 100"
  shows "unat (to_uint8 x) = nat (round x) \<and> nat (round x) \<le> 100"
proof -
  have r0: "0 \<le> round x" using assms(1) by (simp add: round_def)
  have r1: "round x \<le> 100" using assms(2) by (simp add: round_def floor_le_iff) 
  have "unat (word_of_int (round x) :: 8 word) = nat (take_bit 8 (round x))"
    by (simp add: unsigned_of_int)
  also have "take_bit 8 (round x) = round x" using r0 r1 by (simp add: take_bit_int_eq_self)
  finally show ?thesis using r0 r1 by (simp add: to_uint8_def)
qed

lemma cdist_percent:
  "w \<in> set (cdist choices q) \<Longrightarrow> unat w \<le> 100"
  using unat_to_uint8[OF conjunct1[OF ratio_bounds] conjunct2[OF ratio_bounds]]
  by (auto simp: cdist_def)

text \<open>
  C10: every value of the batch text similarity and of the batch date similarity is
  \<open>k / 100\<close> for a whole number \<open>k\<close> from 0 to 100, the score having been stored as an
  8-bit integer percentage before the division by 100.
\<close>

theorem batch_similarity_percent:
  "\<forall>s \<in> set (calculate_batch_text_similarity series q)
        \<union> set (calculate_batch_date_similarity series qd).
     \<exists>k::nat. k \<le> 100 \<and> s = real k / 100"
proof
  fix s
  assume "s \<in> set (calculate_batch_text_similarity series q)
        \<union> set (calculate_batch_date_similarity series qd)"
  then consider (z) "s = 0" | (c) w ch pq where "w \<in> set (cdist ch pq)" "s = real (unat w) / 100"
    by (auto simp: calculate_batch_text_similarity_def calculate_batch_date_similarity_def Let_def
        split: if_splits option.splits)
  then show "\<exists>k::nat. k \<le> 100 \<and> s = real k / 100"
  proof cases
    case z then show ?thesis by (intro exI[of _ 0]) simp
  next
    case c then show ?thesis using cdist_percent by blast
  qed
qed

theorem batch_similarity_percent_witness:
  "(67 / 100 :: real) \<in> set (calculate_batch_text_similarity [Some ''abc''] ''abd'')
        \<union> set (calculate_batch_date_similarity [Some ''abc''] None)
   \<and> (\<exists>k::nat. k \<le> 100 \<and> (67 / 100 :: real) = real k / 100)"
proof -
  have m: "(67 / 100 :: real) \<in> set (calculate_batch_text_similarity [Some ''abc''] ''abd'')
        \<union> set (calculate_batch_date_similarity [Some ''abc''] None)"
    by code_simp
  from batch_similarity_percent[of "[Some ''abc'']" "''abd''" None, rule_format, OF m] m
  show ?thesis by simp
qed

section \<open>Weight resolution\<close>

lemma round_half_even_of_int [simp]: "round_half_even (of_int k) = k"
  by (simp add: round_half_even_def)

lemma py_round2_cent [simp]: "py_round2 (of_int k / 100) = of_int k / 100"
  by (simp add: py_round2_def)

lemma is_cent_round2 [simp]: "is_cent (py_round2 x)"
  by (auto simp: is_cent_def py_round2_def)

lemma py_round2_id: "is_cent x \<Longrightarrow> py_round2 x = x"
  unfolding is_cent_def using py_round2_cent by blast

lemma is_cent_0 [simp]: "is_cent 0"
  unfolding is_cent_def by (rule exI[of _ 0]) simp

lemma is_cent_add: "is_cent x \<Longrightarrow> is_cent y \<Longrightarrow> is_cent (x + y)"
proof -
  assume "is_cent x" "is_cent y"
  then obtain a b :: int where "x = of_int a / 100" "y = of_int b / 100" by (auto simp: is_cent_def)
  then have "x + y = of_int (a + b) / 100" by (simp add: add_divide_distrib)
  then show ?thesis unfolding is_cent_def by blast
qed

lemma is_cent_one_minus: "is_cent x \<Longrightarrow> is_cent (1 - x)"
proof -
  assume "is_cent x"
  then obtain a :: int where "x = of_int a / 100" by (auto simp: is_cent_def)
  then have "1 - x = of_int (100 - a) / 100" by (simp add: diff_divide_distrib)
  then show ?thesis unfolding is_cent_def by blast
qed

lemma is_cent_sum_list: "\<forall>x \<in> set xs. is_cent x \<Longrightarrow> is_cent (sum_list xs)"
  by (induction xs) (auto intro: is_cent_add)

lemma round_half_even_pos: "1 / 2 < y \<Longrightarrow> 1 \<le> round_half_even y"
proof -
  assume y: "1 / 2 < y"
  then have f0: "0 \<le> \<lfloor>y\<rfloor>" by simp
  show ?thesis
  proof (cases "\<lfloor>y\<rfloor> = 0")
    case True
    then have "y - of_int \<lfloor>y\<rfloor> = y" by simp
    with y True show ?thesis by (simp add: round_half_even_def Let_def)
  next
    case False
    with f0 have "1 \<le> \<lfloor>y\<rfloor>" by linarith
    then show ?thesis by (auto simp: round_half_even_def Let_def)
  qed
qed

lemma round_half_even_nonneg: "0 \<le> y \<Longrightarrow> 0 \<le> round_half_even y"
proof -
  assume "0 \<le> y"
  then have "0 \<le> \<lfloor>y\<rfloor>" by simp
  then show ?thesis by (auto simp: round_half_even_def Let_def)
qed

lemma py_round2_pos: "1 / 200 < x \<Longrightarrow> 0 < py_round2 x"
proof -
  assume "1 / 200 < x"
  then have "1 / 2 < x * 100" by simp
  from round_half_even_pos[OF this] have "(1::real) \<le> of_int (round_half_even (x * 100))"
    by linarith
  then show ?thesis by (simp add: py_round2_def)
qed

lemma py_round2_nonneg: "0 \<le> x \<Longrightarrow> 0 \<le> py_round2 x"
proof -
  assume "0 \<le> x"
  then have "0 \<le> x * 100" by simp
  from round_half_even_nonneg[OF this] show ?thesis by (simp add: py_round2_def)
qed

lemma map_of_dict_set: "map_of (dict_set d k v) = (map_of d)(k \<mapsto> v)"
  by (induction d) (auto simp: fun_eq_iff)

lemma dict_keys_dict_set:
  "dict_keys (dict_set d k v) = (if k \<in> set (dict_keys d) then dict_keys d else dict_keys d @ [k])"
  by (induction d) (force simp: dict_keys_def)+

lemma set_dict_keys_dict_set: "set (dict_keys (dict_set d k v)) = insert k (set (dict_keys d))"
  by (auto simp: dict_keys_dict_set)

lemma distinct_dict_set: "distinct (dict_keys d) \<Longrightarrow> distinct (dict_keys (dict_set d k v))"
  by (simp add: dict_keys_dict_set)

lemma dict_val_absent: "k \<notin> set (dict_keys d) \<Longrightarrow> dict_val d k = 0"
  by (simp add: dict_val_def dict_keys_def map_of_eq_None_iff[THEN iffD2])

lemma sum_dict_set:
  "sum_list (map snd (dict_set d k v)) = sum_list (map snd d) - dict_val d k + v"
  by (induction d) (auto simp: dict_val_def)

lemma dict_val_mem: "distinct (dict_keys d) \<Longrightarrow> (k, x) \<in> set d \<Longrightarrow> dict_val d k = x"
  by (simp add: dict_val_def dict_keys_def)

lemma dict_val_in_values:
  "k \<in> set (dict_keys d) \<Longrightarrow> dict_val d k \<in> snd ` set d"
proof -
  assume "k \<in> set (dict_keys d)"
  then have "map_of d k \<noteq> None" by (simp add: dict_keys_def map_of_eq_None_iff)
  then obtain x where x: "map_of d k = Some x" by blast
  then have "(k, x) \<in> set d" by (rule map_of_SomeD)
  then have "snd (k, x) \<in> snd ` set d" by (rule imageI)
  with x show ?thesis by (simp add: dict_val_def)
qed

lemma py_round2_one [simp]: "py_round2 1 = 1"
  using py_round2_cent[of 100] by simp

lemma max_by_props:
  "max_by f b ks \<in> set (b # ks) \<and> (\<forall>k \<in> set (b # ks). f k \<le> f (max_by f b ks))"
proof (induction ks arbitrary: b)
  case Nil
  then show ?case by simp
next
  case (Cons k ks)
  show ?case
  proof (cases "f b < f k")
    case True
    from Cons.IH[of k] True show ?thesis by (auto intro: order_trans less_imp_le)
  next
    case False
    from Cons.IH[of b] False show ?thesis by (auto intro: order_trans)
  qed
qed

lemma values_pos_exists:
  assumes "\<forall>x \<in> set xs. (0::real) \<le> x" "sum_list xs \<noteq> 0"
  shows "\<exists>x \<in> set xs. 0 < x"
proof (rule ccontr)
  assume "\<not> (\<exists>x \<in> set xs. 0 < x)"
  with assms(1) have "\<forall>x \<in> set xs. x = 0" by fastforce
  then have "sum_list xs = 0" by (induction xs) auto
  with assms(2) show False by simp
qed

lemma adjust_unfold:
  assumes gw: "good_weights w" and sub: "set (dict_keys w) \<subseteq> set valid"
    and s0: "sum_list (map snd w) \<noteq> 0" and s1: "sum_list (map snd w) \<noteq> 1"
  shows "\<exists>k \<in> set (dict_keys w). (\<forall>k'. dict_val w k' \<le> dict_val w k) \<and> 0 < dict_val w k
           \<and> adjust_for_rounding w valid
               = dict_set w k (dict_val w k + (1 - sum_list (map snd w)))"
proof -
  let ?S = "sum_list (map snd w)"
  from gw have dist: "distinct (dict_keys w)" and cent: "\<forall>x \<in> snd ` set w. is_cent x"
    and nn: "\<forall>x \<in> snd ` set w. 0 \<le> x" by (auto simp: good_weights_def)
  from s0 have wne: "w \<noteq> []" by auto
  with sub have vne: "valid \<noteq> []" by (cases w) (auto simp: dict_keys_def)
  have cS: "is_cent ?S" using cent by (intro is_cent_sum_list) auto
  then have rS: "py_round2 ?S = ?S" by (rule py_round2_id)
  have rD: "py_round2 (1 - ?S) = 1 - ?S" using cS by (intro py_round2_id is_cent_one_minus)
  from values_pos_exists[of "map snd w"] nn s0 obtain k0 x0 where kx: "(k0, x0) \<in> set w" "0 < x0"
    by auto
  then have k0: "k0 \<in> set (dict_keys w)" "0 < dict_val w k0"
    using dict_val_mem[OF dist] by (auto simp: dict_keys_def intro: rev_image_eqI)
  let ?vwf = "filter (\<lambda>k. k \<in> set valid \<and> 0 < dict_val w k) (dict_keys w)"
  from k0 sub have "k0 \<in> set ?vwf" by auto
  then obtain k ks where vwf: "?vwf = k # ks" by (cases ?vwf) auto
  let ?m = "max_by (dict_val w) k ks"
  from max_by_props[of "dict_val w" k ks]
  have m_in: "?m \<in> set ?vwf" and m_max: "\<forall>k' \<in> set ?vwf. dict_val w k' \<le> dict_val w ?m"
    unfolding vwf by blast+
  from m_in have mk: "?m \<in> set (dict_keys w)" and mpos: "0 < dict_val w ?m" by auto
  have glob: "dict_val w k' \<le> dict_val w ?m" for k'
  proof (cases "k' \<in> set (dict_keys w) \<and> 0 < dict_val w k'")
    case True
    with sub have "k' \<in> set ?vwf" by auto
    with m_max show ?thesis by blast
  next
    case False
    then have "dict_val w k' \<le> 0"
      using dict_val_absent[of k' w] by (cases "k' \<in> set (dict_keys w)") auto
    with mpos show ?thesis by linarith
  qed
  have cm: "is_cent (dict_val w ?m + (1 - ?S))"
    using cent dict_val_in_values[OF mk] cS by (intro is_cent_add is_cent_one_minus) auto
  have "adjust_for_rounding w valid = dict_set w ?m (dict_val w ?m + (1 - ?S))"
    using wne vne s0 s1 by (simp add: adjust_for_rounding_def Let_def rS rD vwf py_round2_id[OF cm])
  with mk glob mpos show ?thesis by blast
qed

lemma adjust_sum_keys:
  assumes gw: "good_weights w" and sub: "set (dict_keys w) \<subseteq> set valid"
    and s0: "sum_list (map snd w) \<noteq> 0"
  shows "sum_list (map snd (adjust_for_rounding w valid)) = 1
         \<and> dict_keys (adjust_for_rounding w valid) = dict_keys w"
proof (cases "sum_list (map snd w) = 1")
  case True
  then have "adjust_for_rounding w valid = w"
    by (simp add: adjust_for_rounding_def Let_def)
  with True show ?thesis by simp
next
  case False
  from adjust_unfold[OF gw sub s0 False] obtain k where k: "k \<in> set (dict_keys w)"
    and eq: "adjust_for_rounding w valid = dict_set w k (dict_val w k + (1 - sum_list (map snd w)))"
    by blast
  show ?thesis using k by (simp add: eq sum_dict_set dict_keys_dict_set)
qed

lemma dict_set_new: "k \<notin> set (dict_keys d) \<Longrightarrow> dict_set d k v = d @ [(k, v)]"
  by (induction d) (auto simp: dict_keys_def)

lemma foldl_dict_set_const:
  "distinct conds \<Longrightarrow> set conds \<inter> set (dict_keys acc) = {} \<Longrightarrow>
     foldl (\<lambda>d c. dict_set d c w) acc conds = acc @ map (\<lambda>c. (c, w)) conds"
proof (induction conds arbitrary: acc)
  case Nil
  then show ?case by simp
next
  case (Cons c conds)
  from Cons.prems have c: "c \<notin> set (dict_keys acc)" by auto
  have "set conds \<inter> set (dict_keys (acc @ [(c, w)])) = {}"
    using Cons.prems by (auto simp: dict_keys_def)
  with Cons.IH[of "acc @ [(c, w)]"] Cons.prems show ?case
    by (simp add: dict_set_new[OF c])
qed

lemma sum_list_const: "sum_list (map (\<lambda>c. w) xs) = real (length xs) * (w::real)"
  by (induction xs) (auto simp: algebra_simps)

lemma equal_weights_ok:
  assumes "conds \<noteq> []" "distinct conds" "length conds < 200"
  shows "sum_list (map snd (get_equal_weights conds)) = 1
         \<and> dict_keys (get_equal_weights conds) = conds"
proof -
  let ?n = "length conds"
  let ?w = "py_round2 (1 / real ?n)"
  let ?pre = "map (\<lambda>c. (c, ?w)) conds"
  have n0: "0 < ?n" using assms(1) by simp
  have "1 / 200 < 1 / real ?n" using assms(3) n0 by (simp add: field_simps)
  then have wpos: "0 < ?w" by (rule py_round2_pos)
  have fold: "foldl (\<lambda>d cond. dict_set d cond ?w) [] conds = ?pre"
    using foldl_dict_set_const[OF assms(2), of "[]" ?w] by (simp add: dict_keys_def)
  have keys: "dict_keys ?pre = conds" by (simp add: dict_keys_def comp_def)
  have gw: "good_weights ?pre"
    using wpos assms(2) by (auto simp: good_weights_def keys)
  have "sum_list (map snd ?pre) = real ?n * ?w" by (simp add: comp_def sum_list_const)
  with wpos n0 have s0: "sum_list (map snd ?pre) \<noteq> 0" by simp
  have "get_equal_weights conds = adjust_for_rounding ?pre conds"
    using assms(1) by (simp add: get_equal_weights_def Let_def fold)
  with adjust_sum_keys[OF gw _ s0, of conds] keys show ?thesis by simp
qed

lemma collect_raw_inv:
  assumes "distinct keys" "set keys \<inter> set (dict_keys raw) = {}"
    "distinct (dict_keys raw)" "\<forall>x \<in> snd ` set raw. 0 < x" "tot = sum_list (map snd raw)"
  shows "distinct (dict_keys (fst (collect_raw row keys (raw, tot))))
       \<and> (\<forall>x \<in> snd ` set (fst (collect_raw row keys (raw, tot))). 0 < x)
       \<and> snd (collect_raw row keys (raw, tot)) = sum_list (map snd (fst (collect_raw row keys (raw, tot))))
       \<and> set (dict_keys (fst (collect_raw row keys (raw, tot)))) \<subseteq> set (dict_keys raw) \<union> set keys"
  using assms
proof (induction keys arbitrary: raw tot)
  case Nil
  then show ?case by simp
next
  case (Cons key keys)
  have knew: "key \<notin> set (dict_keys raw)" using Cons.prems(2) by auto
  show ?case
  proof (cases "\<exists>weight. map_of (weight_cells row) (excel_name key) = Some (Some weight) \<and> 0 < weight")
    case True
    then obtain weight where w: "map_of (weight_cells row) (excel_name key) = Some (Some weight)"
      "0 < weight" by blast
    let ?raw = "dict_set raw key weight"
    have eq: "collect_raw row (key # keys) (raw, tot) = collect_raw row keys (?raw, tot + weight)"
      using w by simp
    have r: "?raw = raw @ [(key, weight)]" using knew by (rule dict_set_new)
    have 1: "distinct keys" using Cons.prems(1) by simp
    have 2: "set keys \<inter> set (dict_keys ?raw) = {}"
      using Cons.prems(1,2) by (auto simp: r dict_keys_def)
    have 3: "distinct (dict_keys ?raw)" using Cons.prems(3) by (rule distinct_dict_set)
    have 4: "\<forall>x \<in> snd ` set ?raw. 0 < x" using Cons.prems(4) w(2) by (auto simp: r)
    have 5: "tot + weight = sum_list (map snd ?raw)" using Cons.prems(5) by (simp add: r)
    from Cons.IH[OF 1 2 3 4 5] show ?thesis
      unfolding eq by (auto simp: r dict_keys_def)
  next
    case False
    then have eq: "collect_raw row (key # keys) (raw, tot) = collect_raw row keys (raw, tot)"
      by (auto split: option.splits)
    have 1: "distinct keys" using Cons.prems(1) by simp
    have 2: "set keys \<inter> set (dict_keys raw) = {}" using Cons.prems(2) by auto
    from Cons.IH[OF 1 2 Cons.prems(3,4,5)] show ?thesis unfolding eq by auto
  qed
qed

lemma pigeonhole_share:
  assumes "xs \<noteq> []" "sum_list xs = (1::real)"
  shows "\<exists>x \<in> set xs. 1 / real (length xs) \<le> x"
proof (rule ccontr)
  assume "\<not> (\<exists>x \<in> set xs. 1 / real (length xs) \<le> x)"
  then have lt: "\<forall>x \<in> set xs. x < 1 / real (length xs)" by auto
  have "ys \<noteq> [] \<Longrightarrow> \<forall>x \<in> set ys. x < c \<Longrightarrow> sum_list ys < real (length ys) * c" for ys and c :: real
  proof (induction ys)
    case Nil then show ?case by simp
  next
    case (Cons y ys)
    show ?case
    proof (cases "ys = []")
      case True with Cons.prems show ?thesis by simp
    next
      case False
      with Cons have "sum_list ys < real (length ys) * c" by simp
      moreover have "y < c" using Cons.prems by simp
      ultimately show ?thesis by (simp add: algebra_simps)
    qed
  qed
  from this[OF assms(1) lt] assms show False by simp
qed

lemma zero_fill_inv:
  fixes E :: "string list"
  defines "step \<equiv> (\<lambda>d key. if key \<in> set E \<and> key \<notin> set (dict_keys d) then dict_set d key (0::real) else d)"
  shows "distinct (dict_keys d0) \<Longrightarrow>
         distinct (dict_keys (foldl step d0 conds))
         \<and> snd ` set (foldl step d0 conds) \<subseteq> snd ` set d0 \<union> {0}
         \<and> sum_list (map snd (foldl step d0 conds)) = sum_list (map snd d0)
         \<and> set (dict_keys (foldl step d0 conds)) = set (dict_keys d0) \<union> (set conds \<inter> set E)"
proof (induction conds arbitrary: d0)
  case Nil
  then show ?case by auto
next
  case (Cons key conds)
  show ?case
  proof (cases "key \<in> set E \<and> key \<notin> set (dict_keys d0)")
    case True
    then have st: "step d0 key = d0 @ [(key, 0)]" by (simp add: step_def dict_set_new)
    have d: "distinct (dict_keys (d0 @ [(key, 0)]))" using Cons.prems True by (simp add: dict_keys_def)
    from Cons.IH[OF d] True show ?thesis by (auto simp: st dict_keys_def)
  next
    case False
    then have st: "step d0 key = d0" by (auto simp: step_def)
    from Cons.IH[OF Cons.prems] False show ?thesis by (auto simp: st)
  qed
qed

lemma entity_fields:
  "map_of ENTITY_CONDITIONS e = Some fs \<Longrightarrow>
     set fs \<subseteq> set (dict_keys FIELD_MAPPING) \<and> length fs \<le> 6"
  by (auto simp: ENTITY_CONDITIONS_def FIELD_MAPPING_def dict_keys_def split: if_splits)

lemma sum_pos_of_member:
  assumes "\<forall>x \<in> set xs. (0::real) \<le> x" "y \<in> set xs" "0 < y"
  shows "sum_list xs \<noteq> 0"
proof -
  have "\<forall>x \<in> set zs. (0::real) \<le> x \<Longrightarrow> y \<in> set zs \<Longrightarrow> y \<le> sum_list zs" for zs
  proof (induction zs)
    case Nil
    then show ?case by simp
  next
    case (Cons z zs)
    have "0 \<le> sum_list zs" using Cons.prems(1) by (intro sum_list_nonneg) simp
    with Cons show ?case by auto
  qed
  from this[OF assms(1,2)] assms(3) show ?thesis by linarith
qed

lemma sum_list_divide: "sum_list (map (\<lambda>x. x / (t::real)) xs) = sum_list xs / t"
  by (induction xs) (auto simp: add_divide_distrib)

lemma normalized_ok:
  fixes raw :: "(string \<times> real) list"
  assumes dist: "distinct (dict_keys raw)" and pos: "\<forall>x \<in> snd ` set raw. 0 < x"
    and tot: "tot = sum_list (map snd raw)" and t0: "tot \<noteq> 0" and len: "length raw < 200"
  defines "nw \<equiv> map (\<lambda>kw. (fst kw, py_round2 (snd kw / tot))) raw"
  shows "good_weights nw \<and> sum_list (map snd nw) \<noteq> 0 \<and> dict_keys nw = dict_keys raw"
proof -
  have rne: "raw \<noteq> []" using tot t0 by auto
  have tpos: "0 < tot"
  proof -
    have "0 \<le> tot" unfolding tot using pos by (intro sum_list_nonneg) (auto intro: less_imp_le)
    with t0 show ?thesis by simp
  qed
  have keys: "dict_keys nw = dict_keys raw" by (simp add: nw_def dict_keys_def comp_def)
  have vals: "snd ` set nw = (\<lambda>x. py_round2 (x / tot)) ` (snd ` set raw)"
    by (force simp: nw_def image_iff)
  have nn: "\<forall>x \<in> snd ` set nw. is_cent x \<and> 0 \<le> x"
  proof
    fix y assume "y \<in> snd ` set nw"
    then obtain x where x: "x \<in> snd ` set raw" "y = py_round2 (x / tot)" unfolding vals by blast
    from x(1) pos have "0 < x" by blast
    with tpos have "0 \<le> x / tot" by simp
    then have "0 \<le> py_round2 (x / tot)" by (rule py_round2_nonneg)
    with x(2) show "is_cent y \<and> 0 \<le> y" by simp
  qed
  have gw: "good_weights nw" using dist nn by (simp add: good_weights_def keys)
  let ?xs = "map (\<lambda>kw. snd kw / tot) raw"
  have "sum_list ?xs = 1"
    using sum_list_divide[of tot "map snd raw"] t0 tot by (simp add: comp_def)
  moreover have "?xs \<noteq> []" using rne by simp
  ultimately obtain x where x: "x \<in> set ?xs" "1 / real (length ?xs) \<le> x"
    using pigeonhole_share by blast
  have "1 / 200 < 1 / real (length raw)" using len rne by (simp add: field_simps)
  with x(2) have "1 / 200 < x" by simp
  then have "0 < py_round2 x" by (rule py_round2_pos)
  moreover have "py_round2 x \<in> set (map snd nw)" using x(1) by (auto simp: nw_def image_iff)
  moreover have "\<forall>y \<in> set (map snd nw). 0 \<le> y" using nn by auto
  ultimately have "sum_list (map snd nw) \<noteq> 0" by (intro sum_pos_of_member) auto
  with gw keys show ?thesis by simp
qed

lemma distinct_length_le:
  "distinct xs \<Longrightarrow> set xs \<subseteq> set ys \<Longrightarrow> length xs \<le> length ys"
  by (metis card_length card_mono distinct_card List.finite_set order_trans)

lemma get_weights_cases:
  assumes df: "df \<noteq> []"
    and ent: "map_of ENTITY_CONDITIONS (py_lower (py_strip entity)) = Some flds"
    and c0: "conditions \<noteq> []" and cs: "set conditions \<subseteq> set flds"
  shows "get_weights df entity conditions = Inr (get_equal_weights conditions)
       \<or> (\<exists>row. snd (collect_raw row conditions ([], 0)) \<noteq> 0
            \<and> get_weights df entity conditions =
                Inr (adjust_for_rounding
                       (foldl (\<lambda>d key. if key \<in> set flds \<and> key \<notin> set (dict_keys d)
                                        then dict_set d key 0 else d)
                          (map (\<lambda>kw. (fst kw, py_round2 (snd kw / snd (collect_raw row conditions ([], 0)))))
                             (fst (collect_raw row conditions ([], 0))))
                          conditions)
                       conditions))"
proof -
  have e0: "entity \<noteq> []"
  proof
    assume "entity = []"
    with ent show False by (simp add: py_strip_def py_lower_def ENTITY_CONDITIONS_def)
  qed
  from entity_fields[OF ent] cs
  have valid: "filter (\<lambda>cond. cond \<in> set (dict_keys FIELD_MAPPING) \<and> cond \<in> set flds) conditions
               = conditions"
    by (auto simp: filter_id_conv)
  let ?m = "filter (\<lambda>r. py_lower (Entity r) = py_lower (py_strip entity)
                       \<and> set (normalize_condition (Condition r))
                         = set (normalize_condition (join_with '','' (map excel_name conditions)))) df"
  show ?thesis
  proof (cases ?m)
    case Nil
    then have "get_weights df entity conditions = Inr (get_equal_weights conditions)"
      using df c0 e0 ent by (simp add: get_weights_def Let_def valid)
    then show ?thesis by simp
  next
    case (Cons row rest)
    show ?thesis
    proof (cases "snd (collect_raw row conditions ([], 0)) = 0")
      case True
      then have "get_weights df entity conditions = Inr (get_equal_weights conditions)"
        using df c0 e0 ent Cons by (simp add: get_weights_def Let_def valid)
      then show ?thesis by simp
    next
      case False
      then have "get_weights df entity conditions =
                Inr (adjust_for_rounding
                       (foldl (\<lambda>d key. if key \<in> set flds \<and> key \<notin> set (dict_keys d)
                                        then dict_set d key 0 else d)
                          (map (\<lambda>kw. (fst kw, py_round2 (snd kw / snd (collect_raw row conditions ([], 0)))))
                             (fst (collect_raw row conditions ([], 0))))
                          conditions)
                       conditions)"
        using df c0 e0 ent Cons by (simp add: get_weights_def Let_def valid)
      with False show ?thesis by blast
    qed
  qed
qed

lemma get_weights_ok:
  assumes df: "df \<noteq> []"
    and ent: "map_of ENTITY_CONDITIONS (py_lower (py_strip entity)) = Some flds"
    and c0: "conditions \<noteq> []" and cd: "distinct conditions" and cs: "set conditions \<subseteq> set flds"
  shows "\<exists>w pre. get_weights df entity conditions = Inr w
           \<and> w = adjust_for_rounding pre conditions \<and> good_weights pre
           \<and> sum_list (map snd pre) \<noteq> 0 \<and> dict_keys w = dict_keys pre
           \<and> sum_list (map snd w) = 1 \<and> set (dict_keys w) = set conditions
           \<and> distinct (dict_keys w)"
proof -
  have len: "length conditions \<le> 6"
    using distinct_length_le[OF cd cs] entity_fields[OF ent] by linarith
  from get_weights_cases[OF df ent c0 cs] show ?thesis
  proof
    assume eq: "get_weights df entity conditions = Inr (get_equal_weights conditions)"
    let ?n = "length conditions"
    let ?w = "py_round2 (1 / real ?n)"
    let ?pre = "map (\<lambda>c. (c, ?w)) conditions"
    have n0: "0 < ?n" using c0 by simp
    have "1 / 200 < 1 / real ?n" using len n0 by (simp add: field_simps)
    then have wpos: "0 < ?w" by (rule py_round2_pos)
    have fold: "foldl (\<lambda>d cond. dict_set d cond ?w) [] conditions = ?pre"
      using foldl_dict_set_const[OF cd, of "[]" ?w] by (simp add: dict_keys_def)
    have keys: "dict_keys ?pre = conditions" by (simp add: dict_keys_def comp_def)
    have gw: "good_weights ?pre" using wpos cd by (auto simp: good_weights_def keys)
    have "sum_list (map snd ?pre) = real ?n * ?w" by (simp add: comp_def sum_list_const)
    with wpos n0 have s0: "sum_list (map snd ?pre) \<noteq> 0" by simp
    have ge: "get_equal_weights conditions = adjust_for_rounding ?pre conditions"
      using c0 by (simp add: get_equal_weights_def Let_def fold)
    from adjust_sum_keys[OF gw _ s0, of conditions] keys
    have "sum_list (map snd (adjust_for_rounding ?pre conditions)) = 1"
      "dict_keys (adjust_for_rounding ?pre conditions) = dict_keys ?pre" by simp_all
    with eq ge gw s0 keys cd show ?thesis by (intro exI[of _ "adjust_for_rounding ?pre conditions"] exI[of _ ?pre]) simp
  next
    assume "\<exists>row. snd (collect_raw row conditions ([], 0)) \<noteq> 0
            \<and> get_weights df entity conditions =
                Inr (adjust_for_rounding
                       (foldl (\<lambda>d key. if key \<in> set flds \<and> key \<notin> set (dict_keys d)
                                        then dict_set d key 0 else d)
                          (map (\<lambda>kw. (fst kw, py_round2 (snd kw / snd (collect_raw row conditions ([], 0)))))
                             (fst (collect_raw row conditions ([], 0))))
                          conditions)
                       conditions)"
    then obtain row where t0: "snd (collect_raw row conditions ([], 0)) \<noteq> 0"
      and eq: "get_weights df entity conditions =
                Inr (adjust_for_rounding
                       (foldl (\<lambda>d key. if key \<in> set flds \<and> key \<notin> set (dict_keys d)
                                        then dict_set d key 0 else d)
                          (map (\<lambda>kw. (fst kw, py_round2 (snd kw / snd (collect_raw row conditions ([], 0)))))
                             (fst (collect_raw row conditions ([], 0))))
                          conditions)
                       conditions)" by blast
    define raw where "raw = fst (collect_raw row conditions ([], 0))"
    define tot where "tot = snd (collect_raw row conditions ([], 0))"
    define nw where "nw = map (\<lambda>kw. (fst kw, py_round2 (snd kw / tot))) raw"
    define pre where "pre = foldl (\<lambda>d key. if key \<in> set flds \<and> key \<notin> set (dict_keys d)
                                        then dict_set d key 0 else d) nw conditions"
    from collect_raw_inv[OF cd, of "[]" 0 row]
    have rd: "distinct (dict_keys raw)" and rp: "\<forall>x \<in> snd ` set raw. 0 < x"
      and rt: "tot = sum_list (map snd raw)" and rk: "set (dict_keys raw) \<subseteq> set conditions"
      by (simp_all add: raw_def tot_def dict_keys_def)
    have "length raw \<le> length conditions"
      using distinct_length_le[OF rd rk] by (simp add: dict_keys_def)
    with len have rl: "length raw < 200" by simp
    from normalized_ok[OF rd rp rt _ rl] t0
    have ngw: "good_weights nw" and ns: "sum_list (map snd nw) \<noteq> 0"
      and nk: "dict_keys nw = dict_keys raw"
      by (simp_all add: nw_def tot_def)
    from ngw have nd: "distinct (dict_keys nw)" by (simp add: good_weights_def)
    from zero_fill_inv[OF nd, of flds conditions]
    have pd: "distinct (dict_keys pre)" and pv: "snd ` set pre \<subseteq> snd ` set nw \<union> {0}"
      and ps: "sum_list (map snd pre) = sum_list (map snd nw)"
      and pk: "set (dict_keys pre) = set (dict_keys nw) \<union> (set conditions \<inter> set flds)"
      by (simp_all add: pre_def)
    have pgw: "good_weights pre"
      unfolding good_weights_def
    proof (intro conjI ballI)
      show "distinct (dict_keys pre)" by (rule pd)
    next
      fix x assume "x \<in> snd ` set pre"
      with pv have "x = 0 \<or> x \<in> snd ` set nw" by blast
      with ngw show "is_cent x" by (auto simp: good_weights_def)
    next
      fix x assume "x \<in> snd ` set pre"
      with pv have "x = 0 \<or> x \<in> snd ` set nw" by blast
      with ngw show "0 \<le> x" by (auto simp: good_weights_def)
    qed
    have pk': "set (dict_keys pre) = set conditions" using pk nk rk cs by auto
    have ps0: "sum_list (map snd pre) \<noteq> 0" using ps ns by simp
    from adjust_sum_keys[OF pgw _ ps0, of conditions] pk'
    have "sum_list (map snd (adjust_for_rounding pre conditions)) = 1"
      "dict_keys (adjust_for_rounding pre conditions) = dict_keys pre" by simp_all
    moreover have "get_weights df entity conditions = Inr (adjust_for_rounding pre conditions)"
      using eq by (simp add: pre_def nw_def raw_def tot_def)
    ultimately show ?thesis using pgw ps0 pk' pd
      by (intro exI[of _ "adjust_for_rounding pre conditions"] exI[of _ pre]) simp
  qed
qed

text \<open>
  For an entity type that the weight calculator knows by name (a key of
  \<open>ENTITY_CONDITIONS\<close> once stripped and lower-cased: \<open>institutional\<close>, \<open>account\<close>,
  \<open>individual\<close>), a table that is not empty and a non-empty list of distinct condition
  fields, all applicable to the entity type, \<open>get_weights\<close> returns a mapping whose values
  sum to 1.00 (exactly, on the idealised numbers, hence within 0.01) and whose keys are the
  given fields. The mapping is \<open>_adjust_for_rounding\<close> applied to the rounded weights \<open>pre\<close>;
  and whenever rounded weights sum neither to 0 nor to 1, that adjustment adds the residual
  \<open>1 - sum\<close> to one field, which has the largest weight.
\<close>

theorem get_weights_sum_one:
  assumes "df \<noteq> []"
    and "map_of ENTITY_CONDITIONS (py_lower (py_strip entity)) = Some flds"
    and "conditions \<noteq> []" and "distinct conditions" and "set conditions \<subseteq> set flds"
  shows "(\<exists>w pre. get_weights df entity conditions = Inr w
            \<and> sum_list (map snd w) = 1 \<and> set (dict_keys w) = set conditions
            \<and> distinct (dict_keys w)
            \<and> w = adjust_for_rounding pre conditions \<and> good_weights pre
            \<and> sum_list (map snd pre) \<noteq> 0 \<and> dict_keys pre = dict_keys w)
       \<and> (\<forall>weights valid.
             good_weights weights \<and> set (dict_keys weights) \<subseteq> set valid
             \<and> sum_list (map snd weights) \<noteq> 0 \<and> sum_list (map snd weights) \<noteq> 1
             \<longrightarrow> (\<exists>k \<in> set (dict_keys weights).
                    (\<forall>k'. dict_val weights k' \<le> dict_val weights k)
                    \<and> adjust_for_rounding weights valid
                        = dict_set weights k
                            (dict_val weights k + (1 - sum_list (map snd weights)))))"
proof (intro conjI allI impI)
  from get_weights_ok[OF assms]
  show "\<exists>w pre. get_weights df entity conditions = Inr w
            \<and> sum_list (map snd w) = 1 \<and> set (dict_keys w) = set conditions
            \<and> distinct (dict_keys w)
            \<and> w = adjust_for_rounding pre conditions \<and> good_weights pre
            \<and> sum_list (map snd pre) \<noteq> 0 \<and> dict_keys pre = dict_keys w"
    by metis
next
  fix weights valid
  assume a: "good_weights weights \<and> set (dict_keys weights) \<subseteq> set valid
             \<and> sum_list (map snd weights) \<noteq> 0 \<and> sum_list (map snd weights) \<noteq> 1"
  then have "\<exists>k \<in> set (dict_keys weights). (\<forall>k'. dict_val weights k' \<le> dict_val weights k)
           \<and> 0 < dict_val weights k
           \<and> adjust_for_rounding weights valid
               = dict_set weights k (dict_val weights k + (1 - sum_list (map snd weights)))"
    by (intro adjust_unfold) simp_all
  then show "\<exists>k \<in> set (dict_keys weights).
                    (\<forall>k'. dict_val weights k' \<le> dict_val weights k)
                    \<and> adjust_for_rounding weights valid
                        = dict_set weights k
                            (dict_val weights k + (1 - sum_list (map snd weights)))"
    by blast
qed

theorem get_weights_sum_one_witness:
  "get_weights
     [\<lparr>Entity = ''Individual'', Condition = ''Name, DOB, Fathers Name'',
       weight_cells = [(''Name'', Some 1), (''DOB'', Some 1), (''Fathers Name'', Some 1)]\<rparr>]
     ''individual'' [''name'', ''dob'', ''fathers_name'']
   = Inr [(''name'', 34 / 100), (''dob'', 33 / 100), (''fathers_name'', 33 / 100)]
   \<and> sum_list (map snd [(''name'', 34 / 100 :: real), (''dob'', 33 / 100), (''fathers_name'', 33 / 100)]) = 1"
proof -
  let ?df = "[\<lparr>Entity = ''Individual'', Condition = ''Name, DOB, Fathers Name'',
       weight_cells = [(''Name'', Some (1::real)), (''DOB'', Some 1), (''Fathers Name'', Some 1)]\<rparr>]"
  let ?c = "[''name'', ''dob'', ''fathers_name'']"
  have h1: "?df \<noteq> []" by simp
  have h2: "map_of ENTITY_CONDITIONS (py_lower (py_strip ''individual''))
            = Some [''name'', ''fathers_name'', ''dob'', ''citizenship_no'',
                    ''grandfathers_name'', ''spouse_name'']"
    by code_simp
  have h3: "?c \<noteq> []" by simp
  have h4: "distinct ?c" by simp
  have h5: "set ?c \<subseteq> set [''name'', ''fathers_name'', ''dob'', ''citizenship_no'',
                    ''grandfathers_name'', ''spouse_name'']" by simp
  have v: "get_weights ?df ''individual'' ?c
           = Inr [(''name'', 34 / 100), (''dob'', 33 / 100), (''fathers_name'', 33 / 100)]"
    by code_simp
  from get_weights_sum_one[OF h1 h2 h3 h4 h5, THEN conjunct1]
  obtain w where "get_weights ?df ''individual'' ?c = Inr w" "sum_list (map snd w) = 1" by blast
  with v show ?thesis by simp
qed

text \<open>
  C2: the entity type \<open>institution\<close> with its applicable fields \<open>name\<close>, \<open>pan_no\<close> and
  \<open>registration_no\<close>, and a loaded table with a row for exactly these conditions: the weight
  calculator returns no mapping at all, it raises the error of an unknown entity type, so
  there are no weights that sum to 1.00 and no keys. Only under the calculator's own
  spelling \<open>institutional\<close> does the same call return weights, and they sum to 1.
\<close>

theorem get_weights_institution_no_sum:
  "get_weights
     [\<lparr>Entity = ''Institution'', Condition = ''Name, PAN, Registration'',
       weight_cells = [(''Name'', Some 2), (''PAN'', Some 1), (''Registration'', Some 1)]\<rparr>]
     ''institution'' [''name'', ''pan_no'', ''registration_no'']
   = Inl ValueError_unknown_entity
   \<and> get_weights
     [\<lparr>Entity = ''Institutional'', Condition = ''Name, PAN, Registration'',
       weight_cells = [(''Name'', Some 2), (''PAN'', Some 1), (''Registration'', Some 1)]\<rparr>]
     ''institutional'' [''name'', ''pan_no'', ''registration_no'']
   = Inr [(''name'', 50 / 100), (''pan_no'', 25 / 100), (''registration_no'', 25 / 100)]"
  by code_simp

text \<open>
  C3: the engine names the entity type of a company \<open>institution\<close>, the weight calculator
  knows it as \<open>institutional\<close>. For \<open>institution\<close>, \<open>get_weights\<close> never returns a weight
  vector, whatever the table and the conditions; with a loaded table and the condition
  \<open>name\<close> it raises the error of an unknown entity type.
\<close>

theorem get_weights_institution_unknown:
  "(\<forall>w. get_weights df ''institution'' conditions \<noteq> Inr w)
   \<and> get_weights
       [\<lparr>Entity = ''Institution'', Condition = ''Name'', weight_cells = [(''Name'', Some 1)]\<rparr>]
       ''institution'' [''name''] = Inl ValueError_unknown_entity
   \<and> determine_entity_type [(''company_name'', VStr ''Acme Traders'')] = ''institution''"
proof -
  have e: "map_of ENTITY_CONDITIONS (py_lower (py_strip ''institution'')) = None" by code_simp
  have "get_weights df ''institution'' conditions \<noteq> Inr w" for w
    by (simp add: get_weights_def Let_def e)
  moreover have "get_weights
       [\<lparr>Entity = ''Institution'', Condition = ''Name'', weight_cells = [(''Name'', Some 1)]\<rparr>]
       ''institution'' [''name''] = Inl ValueError_unknown_entity"
    by (simp add: get_weights_def Let_def e)
  moreover have "determine_entity_type [(''company_name'', VStr ''Acme Traders'')] = ''institution''"
    by code_simp
  ultimately show ?thesis by blast
qed

section \<open>The matching engine, row by row\<close>

lemma replicate_map_const: "replicate (length xs) c = map (\<lambda>_. c) xs"
  by (simp add: map_replicate_const)

lemma batch_text_map: "calculate_batch_text_similarity series q = map (text_sim q) series"
proof (cases "q = [] \<or> preprocess_text (Some q) = []")
  case True
  then have "text_sim q = (\<lambda>_. 0)" by (auto simp: text_sim_def fun_eq_iff)
  with True show ?thesis
    by (auto simp: calculate_batch_text_similarity_def Let_def replicate_map_const)
next
  case False
  then show ?thesis
    by (cases "series = []")
      (simp_all add: calculate_batch_text_similarity_def text_sim_def Let_def cdist_def
        preprocess_dataframe_column_def)
qed

lemma batch_date_map: "calculate_batch_date_similarity series qd = map (date_sim qd) series"
proof (cases "qd = None \<or> qd = Some [] \<or> standardize_date_format qd = None")
  case True
  then have "date_sim qd = (\<lambda>_. 0)" by (auto simp: date_sim_def fun_eq_iff)
  with True show ?thesis
    by (auto simp: calculate_batch_date_similarity_def replicate_map_const)
next
  case False
  then obtain sq q where sq: "standardize_date_format qd = Some sq" and q: "qd = Some q" "q \<noteq> []"
    by auto
  show ?thesis
    by (cases "series = []")
      (simp_all add: calculate_batch_date_similarity_def date_sim_def cdist_def sq[unfolded q] q)
qed

lemma percent_bounds: "0 \<le> real (unat (to_uint8 (ratio a b))) / 100 \<and> real (unat (to_uint8 (ratio a b))) / 100 \<le> 1"
proof -
  define n where "n = unat (to_uint8 (ratio a b))"
  from unat_to_uint8[OF conjunct1[OF ratio_bounds] conjunct2[OF ratio_bounds], of a b]
  have "n \<le> 100" by (simp add: n_def)
  then have "real n \<le> real 100" by (rule of_nat_mono)
  then have "0 \<le> real n / 100 \<and> real n / 100 \<le> 1" by simp
  then show ?thesis by (simp only: n_def)
qed

lemma text_sim_bounds: "0 \<le> text_sim q v \<and> text_sim q v \<le> 1"
  using percent_bounds by (simp add: text_sim_def Let_def)

lemma date_sim_bounds: "0 \<le> date_sim q v \<and> date_sim q v \<le> 1"
  using percent_bounds by (simp add: date_sim_def split: option.splits)

lemma row_sim_bounds: "0 \<le> row_sim fm mr c r \<and> row_sim fm mr c r \<le> 1"
  using text_sim_bounds date_sim_bounds by (simp add: row_sim_def)

lemma select_map_filter: "select (map P xs) (map f xs) = map f (filter P xs)"
  by (induction xs) (auto simp: select_def)

lemma select_filter: "select (map P xs) xs = filter P xs"
  using select_map_filter[where f = id and P = P and xs = xs] by simp

lemma similarity_scores_lookup_aux:
  "map_of (foldl (\<lambda>scores criterion.
              if \<not> field_usable fm mr (columns pm) criterion then scores
              else if criterion \<in> set date_criteria
              then dict_set scores criterion
                     (calculate_batch_date_similarity
                        (col_values pm (cbs_field_of fm criterion))
                        (date_query (rec_get mr criterion)))
              else dict_set scores criterion
                     (calculate_batch_text_similarity
                        (col_values pm (cbs_field_of fm criterion))
                        (text_query criterion (rec_get mr criterion))))
       acc av) c
   = (if c \<in> set av \<and> field_usable fm mr (columns pm) c
      then Some (map (row_sim fm mr c) (rows pm)) else map_of acc c)"
proof (induction av arbitrary: acc)
  case Nil
  then show ?case by simp
next
  case (Cons a av)
  show ?case
    by (simp add: Cons.IH map_of_dict_set batch_text_map batch_date_map col_values_def row_sim_def)
qed

lemma similarity_scores_lookup:
  "map_of (similarity_scores fm mr av pm) c
   = (if scored fm mr av (columns pm) c then Some (map (row_sim fm mr c) (rows pm)) else None)"
  unfolding similarity_scores_def scored_def by (simp add: similarity_scores_lookup_aux)

lemma total_scores_aux:
  assumes "\<And>c. map_of scores c = (if sc c then Some (map (g c) rs) else None)"
  shows "foldl (\<lambda>tot cw.
              case map_of scores (fst cw) of
                Some sims \<Rightarrow> map (\<lambda>ts. fst ts + snd ts * snd cw) (zip tot sims)
              | None \<Rightarrow> tot)
       (map f rs) weights
     = map (\<lambda>r. f r + sum_list (map (\<lambda>cw. g (fst cw) r * snd cw) (filter (\<lambda>cw. sc (fst cw)) weights))) rs"
proof (induction weights arbitrary: f)
  case Nil
  then show ?case by simp
next
  case (Cons cw weights)
  let ?F = "\<lambda>tot cw.
              case map_of scores (fst cw) of
                Some sims \<Rightarrow> map (\<lambda>ts. fst ts + snd ts * snd cw) (zip tot sims)
              | None \<Rightarrow> tot"
  have step: "foldl ?F (map f rs) (cw # weights) = foldl ?F (?F (map f rs) cw) weights" by simp
  show ?case
  proof (cases "sc (fst cw)")
    case True
    have z: "map (\<lambda>ts. fst ts + snd ts * snd cw) (zip (map f rs) (map (g (fst cw)) rs))
             = map (\<lambda>r. f r + g (fst cw) r * snd cw) rs"
      by (induction rs) auto
    have "?F (map f rs) cw = map (\<lambda>r. f r + g (fst cw) r * snd cw) rs"
      using True by (simp add: assms z)
    with step have "foldl ?F (map f rs) (cw # weights)
        = foldl ?F (map (\<lambda>r. f r + g (fst cw) r * snd cw) rs) weights" by (simp only:)
    also have "\<dots> = map (\<lambda>r. (f r + g (fst cw) r * snd cw)
        + sum_list (map (\<lambda>cw. g (fst cw) r * snd cw) (filter (\<lambda>cw. sc (fst cw)) weights))) rs"
      by (rule Cons.IH)
    finally show ?thesis using True by (simp add: add.assoc)
  next
    case False
    have "?F (map f rs) cw = map f rs" using False by (simp add: assms)
    with step have "foldl ?F (map f rs) (cw # weights) = foldl ?F (map f rs) weights"
      by (simp only:)
    also have "\<dots> = map (\<lambda>r. f r
        + sum_list (map (\<lambda>cw. g (fst cw) r * snd cw) (filter (\<lambda>cw. sc (fst cw)) weights))) rs"
      by (rule Cons.IH)
    finally show ?thesis using False by simp
  qed
qed

lemma total_scores_map:
  "total_scores weights (similarity_scores fm mr av pm) (length (rows pm))
   = map (row_total fm mr av (columns pm) weights) (rows pm)"
proof -
  have r: "replicate (length (rows pm)) (0::real) = map (\<lambda>r. 0) (rows pm)"
    by (simp add: map_replicate_const)
  show ?thesis
    unfolding total_scores_def r row_total_def
    using total_scores_aux[of "similarity_scores fm mr av pm" "scored fm mr av (columns pm)"
        "row_sim fm mr" "rows pm" "\<lambda>r. 0" weights]
    by (simp add: similarity_scores_lookup)
qed

lemma frame_eqI: "columns f = columns g \<Longrightarrow> rows f = rows g \<Longrightarrow> f = (g::frame)"
  by simp

lemma mask_rows_filter:
  "mask_rows pm (map P (rows pm)) = pm\<lparr>rows := filter P (rows pm)\<rparr>"
  by (simp add: mask_rows_def select_filter)

lemma set_num_col_map:
  "set_num_col \<lparr>columns = cs, rows = map h rs\<rparr> c (map g rs)
   = \<lparr>columns = add_col cs c, rows = map (\<lambda>r. (h r)\<lparr>nums := dict_set (nums (h r)) c (g r)\<rparr>) rs\<rparr>"
proof -
  have "map (\<lambda>rv. (fst rv)\<lparr>nums := dict_set (nums (fst rv)) c (snd rv)\<rparr>) (zip (map h rs) (map g rs))
        = map (\<lambda>r. (h r)\<lparr>nums := dict_set (nums (h r)) c (g r)\<rparr>) rs"
    by (induction rs) auto
  then show ?thesis by (simp add: set_num_col_def add_col_def)
qed

lemma set_num_col_map0:
  "set_num_col \<lparr>columns = cs, rows = rs\<rparr> c (map g rs)
   = \<lparr>columns = add_col cs c, rows = map (\<lambda>r. r\<lparr>nums := dict_set (nums r) c (g r)\<rparr>) rs\<rparr>"
  using set_num_col_map[of cs "\<lambda>r. r" rs c g] by simp

lemma set_col_const:
  "set_col \<lparr>columns = cs, rows = map h rs\<rparr> c (replicate (length rs) v)
   = \<lparr>columns = add_col cs c, rows = map (\<lambda>r. (h r)\<lparr>cells := dict_set (cells (h r)) c v\<rparr>) rs\<rparr>"
proof -
  have "map (\<lambda>rv. (fst rv)\<lparr>cells := dict_set (cells (fst rv)) c (snd rv)\<rparr>)
          (zip (map h rs) (replicate (length rs) v))
        = map (\<lambda>r. (h r)\<lparr>cells := dict_set (cells (h r)) c v\<rparr>) rs"
    by (induction rs) auto
  then show ?thesis by (simp add: set_col_def add_col_def)
qed

lemma attach_fold:
  "foldl (\<lambda>m c. if sc c then set_num_col m (c @ ''_score'') (map (g c) rs) else m)
     \<lparr>columns = cs, rows = map h rs\<rparr> av
   = \<lparr>columns = foldl (\<lambda>cs c. if sc c then add_col cs (c @ ''_score'') else cs) cs av,
      rows = map (\<lambda>r. foldl (\<lambda>r' c. if sc c then r'\<lparr>nums := dict_set (nums r') (c @ ''_score'') (g c r)\<rparr>
                                    else r') (h r) av) rs\<rparr>"
proof (induction av arbitrary: cs h)
  case Nil
  then show ?case by simp
next
  case (Cons a av)
  show ?case
  proof (cases "sc a")
    case True
    then show ?thesis by (simp add: set_num_col_map Cons.IH)
  next
    case False
    then show ?thesis by (simp add: Cons.IH)
  qed
qed

lemma attach_scores_rows:
  "attach_scores E av W (similarity_scores fm mr av pm) (map P (rows pm))
           (map (row_total fm mr av (columns pm) W) (rows pm)) (mask_rows pm (map P (rows pm)))
         = \<lparr>columns = annotated_columns fm mr av (columns pm),
            rows = map (annotate_row E fm mr av W (columns pm)) (filter P (rows pm))\<rparr>"
proof -
  let ?rs = "filter P (rows pm)"
  have m0: "mask_rows pm (map P (rows pm)) = \<lparr>columns = columns pm, rows = ?rs\<rparr>"
    by (simp add: mask_rows_filter)
  have fn: "(\<lambda>m criterion.
                  case map_of (similarity_scores fm mr av pm) criterion of
                    Some sims \<Rightarrow> set_num_col m (criterion @ ''_score'') (select (map P (rows pm)) sims)
                  | None \<Rightarrow> m)
          = (\<lambda>m c. if scored fm mr av (columns pm) c
                    then set_num_col m (c @ ''_score'') (map (row_sim fm mr c) ?rs) else m)"
    by (intro ext) (simp add: similarity_scores_lookup select_map_filter)
  show ?thesis
    unfolding attach_scores_def Let_def fn m0 select_map_filter
    by (simp add: set_num_col_map0 set_col_const attach_fold annotated_columns_def
        annotate_row_def Let_def)
qed

lemma score_and_rank_rows:
  "score_and_rank E fm mr av W T pm =
     (let rs = filter (\<lambda>r. T \<le> row_total fm mr av (columns pm) W r) (rows pm);
          ms = map (annotate_row E fm mr av W (columns pm)) rs
      in if columns pm = [] \<or> rs = [] then empty_frame
         else \<lparr>columns = annotated_columns fm mr av (columns pm),
               rows = take (MAX_MATCHES_TO_STORE E) (sort_values_desc E ms)\<rparr>)"
proof -
  let ?P = "\<lambda>r. T \<le> row_total fm mr av (columns pm) W r"
  have keep: "map (\<lambda>t. T \<le> t) (map (row_total fm mr av (columns pm) W) (rows pm)) = map ?P (rows pm)"
    by simp
  show ?thesis
    unfolding score_and_rank_def Let_def total_scores_map keep attach_scores_rows
    by (simp add: mask_rows_filter df_empty_def)
qed

lemma prefilter_Cons:
  "prefilter fm mr av ((f, th) # rest) pm =
     (if f \<notin> set av \<or> df_empty pm \<or> \<not> field_usable fm mr (columns pm) f
      then prefilter fm mr av rest pm
      else if length (filter (\<lambda>r. th \<le> text_sim (text_query f (rec_get mr f))
                                        (row_cell (cbs_field_of fm f) r)) (rows pm))
              \<le> MAX_CANDIDATES_AFTER_PREFILTER
      then pm\<lparr>rows := filter (\<lambda>r. th \<le> text_sim (text_query f (rec_get mr f))
                                        (row_cell (cbs_field_of fm f) r)) (rows pm)\<rparr>
      else prefilter fm mr av rest
             (pm\<lparr>rows := filter (\<lambda>r. th \<le> text_sim (text_query f (rec_get mr f))
                                        (row_cell (cbs_field_of fm f) r)) (rows pm)\<rparr>))"
proof -
  let ?g = "\<lambda>r. text_sim (text_query f (rec_get mr f)) (row_cell (cbs_field_of fm f) r)"
  have "map (\<lambda>s. th \<le> s)
          (calculate_batch_text_similarity (col_values pm (cbs_field_of fm f))
             (text_query f (rec_get mr f)))
        = map (\<lambda>r. th \<le> ?g r) (rows pm)"
    by (simp add: batch_text_map col_values_def)
  then have "mask_rows pm (map (\<lambda>s. th \<le> s)
          (calculate_batch_text_similarity (col_values pm (cbs_field_of fm f))
             (text_query f (rec_get mr f))))
        = pm\<lparr>rows := filter (\<lambda>r. th \<le> ?g r) (rows pm)\<rparr>"
    by (simp only: mask_rows_filter)
  then show ?thesis by (simp add: Let_def)
qed

lemma prefilter_columns: "columns (prefilter fm mr av pf pm) = columns pm"
proof (induction pf arbitrary: pm)
  case Nil
  then show ?case by simp
next
  case (Cons a pf)
  obtain f th where a: "a = (f, th)" by (cases a)
  show ?case unfolding a prefilter_Cons by (simp add: Cons.IH)
qed

lemma prefilter_keeps:
  assumes "\<forall>ft \<in> set pf. fst ft \<in> set av \<and> field_usable fm mr (columns pm) (fst ft) \<longrightarrow>
             (\<forall>r. P r \<longrightarrow> snd ft \<le> text_sim (text_query (fst ft) (rec_get mr (fst ft)))
                                   (row_cell (cbs_field_of fm (fst ft)) r))"
  shows "filter P (rows (prefilter fm mr av pf pm)) = filter P (rows pm)"
  using assms
proof (induction pf arbitrary: pm)
  case Nil
  then show ?case by simp
next
  case (Cons a pf)
  obtain f th where a: "a = (f, th)" by (cases a)
  let ?Q = "\<lambda>r. th \<le> text_sim (text_query f (rec_get mr f)) (row_cell (cbs_field_of fm f) r)"
  let ?pm' = "pm\<lparr>rows := filter ?Q (rows pm)\<rparr>"
  have rest: "\<forall>ft \<in> set pf. fst ft \<in> set av \<and> field_usable fm mr (columns pm') (fst ft) \<longrightarrow>
             (\<forall>r. P r \<longrightarrow> snd ft \<le> text_sim (text_query (fst ft) (rec_get mr (fst ft)))
                                   (row_cell (cbs_field_of fm (fst ft)) r))"
    if "columns pm' = columns pm" for pm'
    using Cons.prems that by simp
  show ?case
  proof (cases "f \<notin> set av \<or> df_empty pm \<or> \<not> field_usable fm mr (columns pm) f")
    case True
    then have "prefilter fm mr av (a # pf) pm = prefilter fm mr av pf pm"
      unfolding a prefilter_Cons by simp
    with Cons.IH[OF rest[of pm]] show ?thesis by simp
  next
    case False
    with Cons.prems have PQ: "\<forall>r. P r \<longrightarrow> ?Q r" by (simp add: a)
    then have fQ: "filter P (filter ?Q (rows pm)) = filter P (rows pm)"
      by (auto simp: filter_filter intro: filter_cong)
    have "filter P (rows (prefilter fm mr av pf ?pm')) = filter P (rows ?pm')"
      by (rule Cons.IH[OF rest]) simp
    with fQ False show ?thesis unfolding a prefilter_Cons by simp
  qed
qed

lemma sum_list_split:
  "sum_list (map g xs) = sum_list (map g (filter p xs)) + sum_list (map g (filter (\<lambda>x. \<not> p x) xs))"
  for g :: "'a \<Rightarrow> real"
  by (induction xs) auto

lemma row_total_bound:
  "row_total fm mr av cols W r
     \<le> row_sim fm mr f r * field_weight (scored fm mr av cols) W f
       + others_weight (scored fm mr av cols) W f"
proof -
  let ?sc = "scored fm mr av cols"
  let ?g = "\<lambda>cw. row_sim fm mr (fst cw) r * snd cw"
  let ?xs = "filter (\<lambda>cw. ?sc (fst cw)) W"
  have split: "row_total fm mr av cols W r
      = sum_list (map ?g (filter (\<lambda>cw. fst cw = f) ?xs))
        + sum_list (map ?g (filter (\<lambda>cw. fst cw \<noteq> f) ?xs))"
    unfolding row_total_def by (rule sum_list_split)
  have f1: "filter (\<lambda>cw. fst cw = f) ?xs = filter (\<lambda>cw. ?sc (fst cw) \<and> fst cw = f) W"
    by (simp add: conj_commute)
  have f2: "filter (\<lambda>cw. fst cw \<noteq> f) ?xs = filter (\<lambda>cw. ?sc (fst cw) \<and> fst cw \<noteq> f) W"
    by (simp add: conj_commute)
  have a: "sum_list (map ?g (filter (\<lambda>cw. ?sc (fst cw) \<and> fst cw = f) W))
           = row_sim fm mr f r * field_weight ?sc W f"
    unfolding field_weight_def by (induction W) (auto simp: algebra_simps)
  have "?g cw \<le> max 0 (snd cw)" for cw
  proof (cases "0 \<le> snd cw")
    case True
    with row_sim_bounds[of fm mr "fst cw" r] have "?g cw \<le> 1 * snd cw"
      by (intro mult_right_mono) auto
    with True show ?thesis by simp
  next
    case False
    with row_sim_bounds[of fm mr "fst cw" r] have "?g cw \<le> 0"
      by (simp add: mult_nonneg_nonpos)
    then show ?thesis by simp
  qed
  then have b: "sum_list (map ?g ys) \<le> sum_list (map (\<lambda>cw. max 0 (snd cw)) ys)" for ys
    by (intro sum_list_mono) simp
  show ?thesis
    unfolding split f1 f2 a others_weight_def using b by simp
qed

lemma sound_threshold_keeps:
  assumes fw: "0 < field_weight (scored fm mr av cols) W f"
    and th: "th \<le> contribution_threshold (scored fm mr av cols) W f T"
    and nd: "f \<notin> set date_criteria"
    and pass: "T \<le> row_total fm mr av cols W r"
  shows "th \<le> text_sim (text_query f (rec_get mr f)) (row_cell (cbs_field_of fm f) r)"
proof (rule ccontr)
  let ?sc = "scored fm mr av cols"
  let ?s = "text_sim (text_query f (rec_get mr f)) (row_cell (cbs_field_of fm f) r)"
  assume "\<not> th \<le> ?s"
  then have lt: "?s < th" by simp
  have rs: "row_sim fm mr f r = ?s" using nd by (simp add: row_sim_def)
  from th fw have "th * field_weight ?sc W f \<le> T - others_weight ?sc W f"
    by (simp add: contribution_threshold_def pos_le_divide_eq)
  moreover from lt fw have "?s * field_weight ?sc W f < th * field_weight ?sc W f"
    by (simp add: mult_strict_right_mono)
  ultimately have "?s * field_weight ?sc W f + others_weight ?sc W f < T" by linarith
  moreover have "row_total fm mr av cols W r
      \<le> ?s * field_weight ?sc W f + others_weight ?sc W f"
    using row_total_bound[of fm mr av cols W r f] by (simp only: rs)
  ultimately show False using pass by linarith
qed

lemma match_with_unfold:
  "match_with pf E wdf cbs src T =
     (if df_empty cbs \<or> criteria_of E src = [] \<or> df_empty (candidates_of pf E cbs src)
      then empty_frame
      else score_and_rank E (mapping_of E src) (mapped_of E src) (criteria_of E src)
             (weights_of E wdf src) T (candidates_of pf E cbs src))"
  by (simp add: match_with_def Let_def mapping_of_def mapped_of_def criteria_of_def
      weights_of_def candidates_of_def)

lemma pad_columns: "columns (pad_account_column fm f) = columns f"
  by (simp add: pad_account_column_def Let_def set_col_def)

lemma pad_rows_length: "length (rows (pad_account_column fm f)) = length (rows f)"
  by (simp add: pad_account_column_def Let_def set_col_def col_values_def)

lemma candidates_columns: "columns (candidates_of pf E cbs src) = columns cbs"
  by (simp add: candidates_of_def prefilter_columns pad_columns)

lemma passes_fn:
  "(\<lambda>r. T \<le> row_total (mapping_of E src) (mapped_of E src) (criteria_of E src) cols
                 (weights_of E wdf src) r) = passes E wdf src cols T"
  by (simp add: passes_def fun_eq_iff)

lemma match_with_rows:
  "match_with pf E wdf cbs src T =
     (if df_empty cbs \<or> criteria_of E src = [] \<or> matched_rows pf E wdf cbs src T = []
      then empty_frame
      else \<lparr>columns = annotated_columns (mapping_of E src) (mapped_of E src) (criteria_of E src)
                        (columns cbs),
            rows = take (MAX_MATCHES_TO_STORE E)
                     (sort_values_desc E (matched_rows pf E wdf cbs src T))\<rparr>)"
proof (cases "df_empty cbs \<or> criteria_of E src = []")
  case True
  then show ?thesis by (auto simp: match_with_unfold)
next
  case False
  then have cne: "columns cbs \<noteq> []" by (simp add: df_empty_def)
  show ?thesis
  proof (cases "rows (candidates_of pf E cbs src) = []")
    case True
    then show ?thesis
      by (simp add: match_with_unfold df_empty_def matched_rows_def)
  next
    case ne: False
    with cne have "\<not> df_empty (candidates_of pf E cbs src)"
      by (simp add: df_empty_def candidates_columns)
    with False cne show ?thesis
      by (simp add: match_with_unfold score_and_rank_rows Let_def candidates_columns
          matched_rows_def passes_fn)
  qed
qed

lemma prefilter_fields_not_dates: "\<forall>ft \<in> set prefilter_fields. fst ft \<notin> set date_criteria"
  by (simp add: prefilter_fields_def date_criteria_def)

lemma matched_rows_sound:
  assumes snd: "thresholds_sound pf E wdf cbs src T"
    and nd: "\<forall>ft \<in> set pf. fst ft \<notin> set date_criteria"
  shows "matched_rows pf E wdf cbs src T = matched_rows [] E wdf cbs src T"
proof -
  let ?fm = "mapping_of E src" and ?mr = "mapped_of E src" and ?av = "criteria_of E src"
  let ?W = "weights_of E wdf src"
  let ?pm0 = "pad_account_column ?fm cbs"
  let ?P = "passes E wdf src (columns cbs) T"
  have "\<forall>ft \<in> set pf. fst ft \<in> set ?av \<and> field_usable ?fm ?mr (columns ?pm0) (fst ft) \<longrightarrow>
             (\<forall>r. ?P r \<longrightarrow> snd ft \<le> text_sim (text_query (fst ft) (rec_get ?mr (fst ft)))
                                   (row_cell (cbs_field_of ?fm (fst ft)) r))"
  proof (intro ballI impI allI)
    fix ft r
    assume ft: "ft \<in> set pf" and us: "fst ft \<in> set ?av \<and> field_usable ?fm ?mr (columns ?pm0) (fst ft)"
      and p: "?P r"
    from us have sc: "scored ?fm ?mr ?av (columns cbs) (fst ft)"
      by (simp add: scored_def pad_columns)
    from snd ft sc have fw: "0 < field_weight (scored ?fm ?mr ?av (columns cbs)) ?W (fst ft)"
      and th: "snd ft \<le> contribution_threshold (scored ?fm ?mr ?av (columns cbs)) ?W (fst ft) T"
      by (auto simp: thresholds_sound_def Let_def list_all_iff)
    from nd ft have "fst ft \<notin> set date_criteria" by blast
    from sound_threshold_keeps[OF fw th this] p
    show "snd ft \<le> text_sim (text_query (fst ft) (rec_get ?mr (fst ft)))
                                   (row_cell (cbs_field_of ?fm (fst ft)) r)"
      by (simp add: passes_def)
  qed
  from prefilter_keeps[OF this]
  have "filter ?P (rows (candidates_of pf E cbs src)) = filter ?P (rows ?pm0)"
    by (simp add: candidates_of_def)
  then show ?thesis by (simp add: matched_rows_def candidates_of_def)
qed

text \<open>
  C1: when every field of the prefilter list that the cascade can apply has a threshold at
  most its contribution threshold \<open>(final_threshold - others) / weight\<close> (the least
  similarity on that field with which a row can still reach \<open>final_threshold\<close>), the
  cascade discards no row that full scoring would keep: \<open>match\<close> returns exactly what it
  returns when no prefilter is run, and the rows that reach the result are the rows of the
  whole reference data whose weighted total is at least \<open>final_threshold\<close>.
\<close>

theorem prefilter_sound:
  assumes "thresholds_sound prefilter_fields E wdf cbs src T"
  shows "match E wdf cbs src T = match_with [] E wdf cbs src T
       \<and> matched_rows prefilter_fields E wdf cbs src T
         = map (annotate_row E (mapping_of E src) (mapped_of E src) (criteria_of E src)
                  (weights_of E wdf src) (columns cbs))
             (filter (passes E wdf src (columns cbs) T)
                (rows (pad_account_column (mapping_of E src) cbs)))"
proof -
  from matched_rows_sound[OF assms prefilter_fields_not_dates]
  have eq: "matched_rows prefilter_fields E wdf cbs src T = matched_rows [] E wdf cbs src T" .
  have "match E wdf cbs src T = match_with [] E wdf cbs src T"
    unfolding match_def match_with_rows eq ..
  moreover have "matched_rows [] E wdf cbs src T
         = map (annotate_row E (mapping_of E src) (mapped_of E src) (criteria_of E src)
                  (weights_of E wdf src) (columns cbs))
             (filter (passes E wdf src (columns cbs) T)
                (rows (pad_account_column (mapping_of E src) cbs)))"
    by (simp add: matched_rows_def candidates_of_def)
  ultimately show ?thesis using eq by simp
qed

theorem prefilter_sound_witness:
  "thresholds_sound prefilter_fields (ex_env 2) ex_table (ex_cbs ex_rows) ex_query (85 / 100)
   \<and> length (rows (candidates_of prefilter_fields (ex_env 2) (ex_cbs ex_rows) ex_query)) = 2
   \<and> length (rows (ex_cbs ex_rows)) = 3
   \<and> match (ex_env 2) ex_table (ex_cbs ex_rows) ex_query (85 / 100)
       = match_with [] (ex_env 2) ex_table (ex_cbs ex_rows) ex_query (85 / 100)"
proof -
  have h: "thresholds_sound prefilter_fields (ex_env 2) ex_table (ex_cbs ex_rows) ex_query (85 / 100)"
    by code_simp
  have c: "length (rows (candidates_of prefilter_fields (ex_env 2) (ex_cbs ex_rows) ex_query)) = 2"
    by code_simp
  have d: "length (rows (ex_cbs ex_rows)) = 3" by code_simp
  from prefilter_sound[OF h] h c d show ?thesis by blast
qed

text \<open>
  C6: the cascade runs over \<open>account_no\<close> (0.7), \<open>citizenship_no\<close> (0.4), \<open>registration_no\<close>
  (0.5), \<open>name\<close> (0.5) in this order, with the cap 100. A field that is not among the
  available criteria is skipped. A field that is applied keeps the rows whose similarity
  reaches its threshold; if at most 100 rows are left the cascade ends there and no further
  field is applied, otherwise it goes on with the rows left. If the cascade leaves no
  candidate, \<open>match\<close> returns the empty result without scoring.
\<close>

theorem prefilter_cascade:
  "prefilter_fields
     = [(''account_no'', 7 / 10), (''citizenship_no'', 4 / 10), (''registration_no'', 5 / 10),
        (''name'', 5 / 10)]
   \<and> MAX_CANDIDATES_AFTER_PREFILTER = 100
   \<and> (f \<notin> set av \<longrightarrow> prefilter fm mr av ((f, th) # rest) pm = prefilter fm mr av rest pm)
   \<and> (f \<in> set av \<and> \<not> df_empty pm \<and> field_usable fm mr (columns pm) f \<longrightarrow>
        (let kept = filter (\<lambda>r. th \<le> text_sim (text_query f (rec_get mr f))
                                      (row_cell (cbs_field_of fm f) r)) (rows pm)
         in prefilter fm mr av ((f, th) # rest) pm
            = (if length kept \<le> 100 then pm\<lparr>rows := kept\<rparr>
               else prefilter fm mr av rest (pm\<lparr>rows := kept\<rparr>))))
   \<and> (df_empty (candidates_of prefilter_fields E cbs src) \<longrightarrow>
        match E wdf cbs src T = empty_frame)"
proof (intro conjI impI)
  show "prefilter_fields
     = [(''account_no'', 7 / 10), (''citizenship_no'', 4 / 10), (''registration_no'', 5 / 10),
        (''name'', 5 / 10)]"
    by (simp add: prefilter_fields_def)
  show "MAX_CANDIDATES_AFTER_PREFILTER = 100" by (simp add: MAX_CANDIDATES_AFTER_PREFILTER_def)
next
  assume "f \<notin> set av"
  then show "prefilter fm mr av ((f, th) # rest) pm = prefilter fm mr av rest pm"
    unfolding prefilter_Cons by simp
next
  assume "f \<in> set av \<and> \<not> df_empty pm \<and> field_usable fm mr (columns pm) f"
  then show "let kept = filter (\<lambda>r. th \<le> text_sim (text_query f (rec_get mr f))
                                      (row_cell (cbs_field_of fm f) r)) (rows pm)
         in prefilter fm mr av ((f, th) # rest) pm
            = (if length kept \<le> 100 then pm\<lparr>rows := kept\<rparr>
               else prefilter fm mr av rest (pm\<lparr>rows := kept\<rparr>))"
    unfolding prefilter_Cons by (simp add: Let_def MAX_CANDIDATES_AFTER_PREFILTER_def)
next
  assume "df_empty (candidates_of prefilter_fields E cbs src)"
  then show "match E wdf cbs src T = empty_frame"
    by (simp add: match_def match_with_unfold)
qed

theorem prefilter_cascade_witness:
  "''account_no'' \<notin> set (criteria_of (ex_env 2) ex_query)
   \<and> ''citizenship_no'' \<in> set (criteria_of (ex_env 2) ex_query)
   \<and> ''name'' \<in> set (criteria_of (ex_env 2) ex_query)
   \<and> rows (candidates_of prefilter_fields (ex_env 2) (ex_cbs ex_rows) ex_query)
       = filter (\<lambda>r. 4 / 10 \<le> text_sim
                   (text_query ''citizenship_no'' (rec_get (mapped_of (ex_env 2) ex_query) ''citizenship_no''))
                   (row_cell (cbs_field_of (mapping_of (ex_env 2) ex_query) ''citizenship_no'') r))
           (rows (pad_account_column (mapping_of (ex_env 2) ex_query) (ex_cbs ex_rows)))
   \<and> length (rows (candidates_of prefilter_fields (ex_env 2) (ex_cbs ex_rows) ex_query)) = 2"
proof -
  let ?E = "ex_env 2"
  let ?fm = "mapping_of ?E ex_query" and ?mr = "mapped_of ?E ex_query"
  let ?av = "criteria_of ?E ex_query"
  let ?pm = "pad_account_column ?fm (ex_cbs ex_rows)"
  let ?rest = "[(''registration_no'', 5 / 10), (''name'', 5 / 10 :: real)]"
  let ?kept = "filter (\<lambda>r. 4 / 10 \<le> text_sim
                   (text_query ''citizenship_no'' (rec_get ?mr ''citizenship_no''))
                   (row_cell (cbs_field_of ?fm ''citizenship_no'') r)) (rows ?pm)"
  have a: "''account_no'' \<notin> set ?av" by code_simp
  have c: "''citizenship_no'' \<in> set ?av" by code_simp
  have n: "''name'' \<in> set ?av" by code_simp
  have u: "''citizenship_no'' \<in> set ?av \<and> \<not> df_empty ?pm
           \<and> field_usable ?fm ?mr (columns ?pm) ''citizenship_no''"
    by code_simp
  have len: "length ?kept \<le> 100" by code_simp
  have pf: "prefilter_fields = (''account_no'', 7 / 10) # (''citizenship_no'', 4 / 10) # ?rest"
    by (simp add: prefilter_fields_def)
  have 1: "prefilter ?fm ?mr ?av ((''account_no'', 7 / 10) # (''citizenship_no'', 4 / 10) # ?rest) ?pm
        = prefilter ?fm ?mr ?av ((''citizenship_no'', 4 / 10) # ?rest) ?pm"
    by (rule mp[OF prefilter_cascade[THEN conjunct2, THEN conjunct2, THEN conjunct1] a])
  have "let kept = ?kept
        in prefilter ?fm ?mr ?av ((''citizenship_no'', 4 / 10) # ?rest) ?pm
            = (if length kept \<le> 100 then ?pm\<lparr>rows := kept\<rparr>
               else prefilter ?fm ?mr ?av ?rest (?pm\<lparr>rows := kept\<rparr>))"
    by (rule mp[OF prefilter_cascade[THEN conjunct2, THEN conjunct2, THEN conjunct2, THEN conjunct1] u])
  then have 2: "prefilter ?fm ?mr ?av ((''citizenship_no'', 4 / 10) # ?rest) ?pm
             = ?pm\<lparr>rows := ?kept\<rparr>"
    unfolding Let_def if_P[OF len] .
  have r: "rows (candidates_of prefilter_fields ?E (ex_cbs ex_rows) ex_query) = ?kept"
    unfolding candidates_of_def pf 1 2 by simp
  have l: "length (rows (candidates_of prefilter_fields ?E (ex_cbs ex_rows) ex_query)) = 2"
    by code_simp
  from a c n r l show ?thesis by (intro conjI)
qed

section \<open>Unknown entity types\<close>

lemma map_record_distinct_aux:
  "distinct (dict_keys acc) \<Longrightarrow>
   distinct (dict_keys (foldl (\<lambda>mapped_record entry.
                  case map_of sdl (py_lower (snd (snd entry))) of
                    Some original_key \<Rightarrow>
                      dict_set mapped_record (fst entry) (rec_get flat original_key)
                  | None \<Rightarrow> mapped_record) acc fm))"
proof (induction fm arbitrary: acc)
  case Nil
  then show ?case by simp
next
  case (Cons e fm)
  show ?case
    by (cases "map_of sdl (py_lower (snd (snd e)))")
      (simp_all add: Cons.IH Cons.prems distinct_dict_set)
qed

lemma criteria_distinct: "distinct (criteria_of E src)"
proof -
  have "distinct (dict_keys (mapped_of E src))"
    unfolding mapped_of_def map_record_def Let_def
    by (rule map_record_distinct_aux) (simp add: dict_keys_def)
  then have "distinct (map fst (mapped_of E src))" by (simp add: dict_keys_def)
  then show ?thesis
    unfolding criteria_of_def get_available_criteria_def by (rule distinct_map_filter)
qed

lemma unknown_entity_no_weights:
  assumes "map_of ENTITY_CONDITIONS (py_lower (py_strip entity)) = None"
  shows "get_weights wdf entity av \<noteq> Inr w"
  using assms by (simp add: get_weights_def Let_def)

lemma fallback_weights:
  assumes "\<forall>w. get_weights wdf (determine_entity_type src) av \<noteq> Inr w" "distinct av"
  shows "get_normalized_weights wdf src av = map (\<lambda>c. (c, 1 / real (length av))) av"
proof -
  from assms(1) obtain e where e: "get_weights wdf (determine_entity_type src) av = Inl e"
    by (cases "get_weights wdf (determine_entity_type src) av") auto
  have "foldl (\<lambda>d crit. dict_set d crit (1 / real (length av))) [] av
        = map (\<lambda>c. (c, 1 / real (length av))) av"
    using foldl_dict_set_const[OF assms(2), of "[]" "1 / real (length av)"]
    by (simp add: dict_keys_def)
  then show ?thesis by (simp add: get_normalized_weights_def e)
qed

lemma ticket_status: "fst (get_ticket_matches E wdf cbs src tid T) \<in> {''Matched'', ''Unmatched''}"
  by (simp add: get_ticket_matches_def Let_def)

text \<open>
  C4, as amended: for a query record whose entity type is not one the weight calculator
  knows, weight resolution fails (with the error of an unknown entity type when the table
  is loaded and there are criteria), but the engine catches the failure and goes on with
  equal weights \<open>1 / n\<close> over the \<open>n\<close> available criteria; the call ends as \<open>Matched\<close> or
  \<open>Unmatched\<close>, the failure is not reported as \<open>Error\<close>.
\<close>

theorem unknown_entity_equal_weights:
  assumes "map_of ENTITY_CONDITIONS (py_lower (py_strip (determine_entity_type src))) = None"
  shows "(\<forall>w. get_weights wdf (determine_entity_type src) (criteria_of E src) \<noteq> Inr w)
       \<and> (wdf \<noteq> [] \<and> criteria_of E src \<noteq> [] \<longrightarrow>
            get_weights wdf (determine_entity_type src) (criteria_of E src)
              = Inl ValueError_unknown_entity)
       \<and> weights_of E wdf src
           = map (\<lambda>c. (c, 1 / real (length (criteria_of E src)))) (criteria_of E src)
       \<and> fst (get_ticket_matches E wdf cbs src tid T) \<in> {''Matched'', ''Unmatched''}"
proof (intro conjI impI)
  show nw: "\<forall>w. get_weights wdf (determine_entity_type src) (criteria_of E src) \<noteq> Inr w"
    using unknown_entity_no_weights[OF assms] by blast
  show "weights_of E wdf src
           = map (\<lambda>c. (c, 1 / real (length (criteria_of E src)))) (criteria_of E src)"
    unfolding weights_of_def by (rule fallback_weights[OF nw criteria_distinct])
  show "fst (get_ticket_matches E wdf cbs src tid T) \<in> {''Matched'', ''Unmatched''}"
    by (rule ticket_status)
next
  assume a: "wdf \<noteq> [] \<and> criteria_of E src \<noteq> []"
  have "determine_entity_type src \<noteq> []"
  proof
    assume "determine_entity_type src = []"
    then show False
      by (auto simp: determine_entity_type_def Let_def py_lower_def split: pyval.splits if_splits)
  qed
  with a assms show "get_weights wdf (determine_entity_type src) (criteria_of E src)
              = Inl ValueError_unknown_entity"
    by (simp add: get_weights_def Let_def)
qed

theorem unknown_entity_equal_weights_witness:
  "map_of ENTITY_CONDITIONS
     (py_lower (py_strip (determine_entity_type
        [(''entity_type'', VStr ''alien''), (''name'', VStr ''Ram Bahadur'')]))) = None
   \<and> criteria_of (ex_env 2) [(''entity_type'', VStr ''alien''), (''name'', VStr ''Ram Bahadur'')]
       = [''name'']
   \<and> weights_of (ex_env 2) ex_table
        [(''entity_type'', VStr ''alien''), (''name'', VStr ''Ram Bahadur'')] = [(''name'', 1)]"
proof -
  let ?src = "[(''entity_type'', VStr ''alien''), (''name'', VStr ''Ram Bahadur'')]"
  have h: "map_of ENTITY_CONDITIONS (py_lower (py_strip (determine_entity_type ?src))) = None"
    by code_simp
  have c: "criteria_of (ex_env 2) ?src = [''name'']" by code_simp
  from unknown_entity_equal_weights[OF h, where E = "ex_env 2" and wdf = ex_table]
  have "weights_of (ex_env 2) ex_table ?src
        = map (\<lambda>c. (c, 1 / real (length (criteria_of (ex_env 2) ?src)))) (criteria_of (ex_env 2) ?src)"
    by (rule conjunct1[OF conjunct2[OF conjunct2]])
  then have "weights_of (ex_env 2) ex_table ?src = [(''name'', 1)]" by (simp add: c)
  with h c show ?thesis by (intro conjI)
qed

text \<open>
  C4, as stated (an unrecognised entity type gives \<open>Error\<close> with \<open>UnknownEntity\<close>), fails for
  the entity type \<open>alien\<close>: the row with the same name is returned as \<open>Matched\<close>.
\<close>

theorem unknown_entity_not_error:
  "fst (get_ticket_matches (ex_env 2) ex_table (ex_cbs ex_rows)
          [(''entity_type'', VStr ''alien''), (''name'', VStr ''Ram Bahadur'')] ''7'' (85 / 100))
   = ''Matched''"
  by code_simp


section \<open>Row order, ranking and truncation\<close>

lemma pad_rows_map:
  "\<exists>h. \<forall>f. columns f = cols \<longrightarrow> rows (pad_account_column fm f) = map h (rows f)"
proof -
  let ?c = "cbs_field_of fm ''account_no''"
  let ?h = "\<lambda>r. r\<lparr>cells := dict_set (cells r) ?c (Some (zfill 16 (astype_str (row_cell ?c r))))\<rparr>"
  have z: "map (\<lambda>rv. (fst rv)\<lparr>cells := dict_set (cells (fst rv)) ?c (snd rv)\<rparr>)
             (zip rs (map g rs))
           = map (\<lambda>r. r\<lparr>cells := dict_set (cells r) ?c (g r)\<rparr>) rs" for rs :: "row list" and g
    by (induction rs) auto
  show ?thesis
  proof (cases "?c \<noteq> [] \<and> ?c \<in> set cols")
    case True
    then have "\<forall>f. columns f = cols \<longrightarrow> rows (pad_account_column fm f) = map ?h (rows f)"
      by (simp add: pad_account_column_def Let_def set_col_def col_values_def z)
    then show ?thesis by blast
  next
    case False
    then have "\<forall>f. columns f = cols \<longrightarrow> rows (pad_account_column fm f) = map (\<lambda>r. r) (rows f)"
      by (auto simp: pad_account_column_def Let_def)
    then show ?thesis by blast
  qed
qed

lemma pad_perm:
  assumes "mset (rows f') = mset (rows f)" "columns f' = columns f"
  shows "mset (rows (pad_account_column fm f')) = mset (rows (pad_account_column fm f))"
proof -
  from pad_rows_map[of "columns f" fm] obtain h where
    h: "\<And>g. columns g = columns f \<Longrightarrow> rows (pad_account_column fm g) = map h (rows g)" by blast
  have "mset (map h (rows f')) = mset (map h (rows f))"
    using assms(1) by simp
  with h[of f] h[of f'] assms(2) show ?thesis by simp
qed

lemma mset_rows_empty: "mset xs = mset ys \<Longrightarrow> (xs = []) = (ys = [])"
  by (metis mset_zero_iff)

lemma prefilter_perm:
  assumes "mset (rows pm') = mset (rows pm)" "columns pm' = columns pm"
  shows "mset (rows (prefilter fm mr av pf pm')) = mset (rows (prefilter fm mr av pf pm))"
  using assms
proof (induction pf arbitrary: pm pm')
  case Nil
  then show ?case by simp
next
  case (Cons a pf)
  obtain f th where a: "a = (f, th)" by (cases a)
  let ?Q = "\<lambda>r. th \<le> text_sim (text_query f (rec_get mr f)) (row_cell (cbs_field_of fm f) r)"
  have e: "df_empty pm' = df_empty pm"
    using Cons.prems mset_rows_empty[OF Cons.prems(1)] by (simp add: df_empty_def)
  have mf: "mset (filter ?Q (rows pm')) = mset (filter ?Q (rows pm))"
    using Cons.prems(1) by simp
  then have lf: "length (filter ?Q (rows pm')) = length (filter ?Q (rows pm))"
    by (rule mset_eq_length)
  show ?case
  proof (cases "f \<notin> set av \<or> df_empty pm \<or> \<not> field_usable fm mr (columns pm) f")
    case True
    with e Cons.prems(2) have "prefilter fm mr av (a # pf) pm = prefilter fm mr av pf pm"
      "prefilter fm mr av (a # pf) pm' = prefilter fm mr av pf pm'"
      unfolding a prefilter_Cons by auto
    with Cons.IH[OF Cons.prems] show ?thesis by simp
  next
    case False
    have ih: "mset (rows (prefilter fm mr av pf (pm'\<lparr>rows := filter ?Q (rows pm')\<rparr>)))
            = mset (rows (prefilter fm mr av pf (pm\<lparr>rows := filter ?Q (rows pm)\<rparr>)))"
      by (rule Cons.IH) (simp_all add: Cons.prems)
    from False e Cons.prems(2) lf mf ih show ?thesis
      unfolding a prefilter_Cons by auto
  qed
qed

lemma matched_rows_perm:
  assumes "mset (rows cbs') = mset (rows cbs)" "columns cbs' = columns cbs"
  shows "mset (matched_rows pf E wdf cbs' src T) = mset (matched_rows pf E wdf cbs src T)"
proof -
  have p: "mset (rows (pad_account_column (mapping_of E src) cbs'))
         = mset (rows (pad_account_column (mapping_of E src) cbs))"
    by (rule pad_perm[OF assms])
  have "mset (rows (candidates_of pf E cbs' src)) = mset (rows (candidates_of pf E cbs src))"
    unfolding candidates_of_def
    by (rule prefilter_perm[OF p]) (simp add: pad_columns assms(2))
  then show ?thesis
    unfolding matched_rows_def assms(2) by simp
qed

lemma stable_sort_desc_sorts: "sorts_desc stable_sort_desc"
  unfolding sorts_desc_def stable_sort_desc_def
proof (intro allI conjI)
  fix rs :: "row list"
  show "mset (sort_key (\<lambda>r. - total_score_of r) rs) = mset rs" by simp
  have "sorted (map (\<lambda>r. - total_score_of r) (sort_key (\<lambda>r. - total_score_of r) rs))"
    by (rule sorted_sort_key)
  then show "sorted_wrt (\<lambda>a b. total_score_of b \<le> total_score_of a)
               (sort_key (\<lambda>r. - total_score_of r) rs)"
    by (simp add: sorted_map)
qed

lemma stable_sort_desc_stable:
  "filter (\<lambda>r. total_score_of r = k) (stable_sort_desc rs) = filter (\<lambda>r. total_score_of r = k) rs"
proof -
  have "filter (\<lambda>r. - total_score_of r = - k) (sort_key (\<lambda>r. - total_score_of r) rs)
        = filter (\<lambda>r. - total_score_of r = - k) rs"
    by (rule sort_key_stable)
  then show ?thesis by (simp add: stable_sort_desc_def)
qed

lemma sorts_desc_nil: "sorts_desc s \<Longrightarrow> s [] = []"
proof -
  assume "sorts_desc s"
  then have "mset (s []) = mset []" unfolding sorts_desc_def by blast
  then show ?thesis by simp
qed

lemma sorted_wrt_take: "sorted_wrt R xs \<Longrightarrow> sorted_wrt R (take n xs)"
  by (metis append_take_drop_id sorted_wrt_append)

lemma match_rows_eq:
  assumes "sorts_desc (sort_values_desc E)"
  shows "rows (match E wdf cbs src T)
         = (if df_empty cbs \<or> criteria_of E src = [] then []
            else take (MAX_MATCHES_TO_STORE E)
                   (sort_values_desc E (matched_rows prefilter_fields E wdf cbs src T)))"
  unfolding match_def match_with_rows
  using sorts_desc_nil[OF assms] by (simp add: empty_frame_def)

text \<open>
  C5, as amended: permuting the rows of the reference data changes neither the rows that
  pass the final threshold nor their scores (as a multiset). \<open>match\<close> returns these rows
  sorted by descending total score and cut to the maximum result count; so the returned
  rows and scores are the same for every row order whenever no more rows pass than the
  maximum. Which rows of equal score come first, and which of them the cut keeps, is
  decided by the sort of pandas and can depend on the row order.
\<close>

theorem match_order:
  assumes "sorts_desc (sort_values_desc E)"
    and "mset (rows cbs') = mset (rows cbs)" and "columns cbs' = columns cbs"
  shows "mset (matched_rows prefilter_fields E wdf cbs' src T)
           = mset (matched_rows prefilter_fields E wdf cbs src T)
       \<and> rows (match E wdf cbs src T)
           = (if df_empty cbs \<or> criteria_of E src = [] then []
              else take (MAX_MATCHES_TO_STORE E)
                     (sort_values_desc E (matched_rows prefilter_fields E wdf cbs src T)))
       \<and> sorted_wrt (\<lambda>a b. total_score_of b \<le> total_score_of a) (rows (match E wdf cbs src T))
       \<and> length (rows (match E wdf cbs src T)) \<le> MAX_MATCHES_TO_STORE E
       \<and> (length (matched_rows prefilter_fields E wdf cbs src T) \<le> MAX_MATCHES_TO_STORE E
            \<longrightarrow> mset (rows (match E wdf cbs' src T)) = mset (rows (match E wdf cbs src T)))"
proof -
  let ?C = "matched_rows prefilter_fields E wdf cbs src T"
  let ?C' = "matched_rows prefilter_fields E wdf cbs' src T"
  let ?n = "MAX_MATCHES_TO_STORE E"
  let ?s = "sort_values_desc E"
  have perm: "mset ?C' = mset ?C" by (rule matched_rows_perm[OF assms(2,3)])
  have r: "rows (match E wdf cbs src T)
           = (if df_empty cbs \<or> criteria_of E src = [] then [] else take ?n (?s ?C))"
    by (rule match_rows_eq[OF assms(1)])
  have r': "rows (match E wdf cbs' src T)
           = (if df_empty cbs' \<or> criteria_of E src = [] then [] else take ?n (?s ?C'))"
    by (rule match_rows_eq[OF assms(1)])
  have e: "df_empty cbs' = df_empty cbs"
    using assms(3) mset_rows_empty[OF assms(2)] by (simp add: df_empty_def)
  have ms: "mset (?s xs) = mset xs" for xs using assms(1) by (simp add: sorts_desc_def)
  have so: "sorted_wrt (\<lambda>a b. total_score_of b \<le> total_score_of a) (?s xs)" for xs
    using assms(1) by (simp add: sorts_desc_def)
  have s3: "sorted_wrt (\<lambda>a b. total_score_of b \<le> total_score_of a) (rows (match E wdf cbs src T))"
    unfolding r using sorted_wrt_take[OF so] by simp
  have s4: "length (rows (match E wdf cbs src T)) \<le> ?n" unfolding r by simp
  have s5: "mset (rows (match E wdf cbs' src T)) = mset (rows (match E wdf cbs src T))"
    if le: "length ?C \<le> ?n"
  proof -
    have l: "length (?s ?C) = length ?C" using ms[of ?C] by (rule mset_eq_length)
    have "length ?C' = length ?C" using perm by (rule mset_eq_length)
    moreover have "length (?s ?C') = length ?C'" using ms[of ?C'] by (rule mset_eq_length)
    ultimately have t': "take ?n (?s ?C') = ?s ?C'" using le by simp
    have t: "take ?n (?s ?C) = ?s ?C" using le l by simp
    show ?thesis unfolding r r' e t t' by (simp add: ms perm)
  qed
  from perm r s3 s4 s5 show ?thesis by blast
qed

theorem match_order_witness:
  "sorts_desc (sort_values_desc (ex_env 2))
   \<and> mset (rows (ex_cbs (rev ex_rows))) = mset (rows (ex_cbs ex_rows))
   \<and> columns (ex_cbs (rev ex_rows)) = columns (ex_cbs ex_rows)
   \<and> length (matched_rows prefilter_fields (ex_env 2) ex_table (ex_cbs ex_rows) ex_query (85 / 100)) = 2
   \<and> mset (rows (match (ex_env 2) ex_table (ex_cbs (rev ex_rows)) ex_query (85 / 100)))
       = mset (rows (match (ex_env 2) ex_table (ex_cbs ex_rows) ex_query (85 / 100)))"
proof -
  have h1: "sorts_desc (sort_values_desc (ex_env 2))"
    using stable_sort_desc_sorts by (simp add: ex_env_def)
  have h2: "mset (rows (ex_cbs (rev ex_rows))) = mset (rows (ex_cbs ex_rows))"
    by (simp add: ex_cbs_def)
  have h3: "columns (ex_cbs (rev ex_rows)) = columns (ex_cbs ex_rows)"
    by (simp add: ex_cbs_def)
  have l: "length (matched_rows prefilter_fields (ex_env 2) ex_table (ex_cbs ex_rows) ex_query (85 / 100)) = 2"
    by code_simp
  have m: "MAX_MATCHES_TO_STORE (ex_env 2) = 2" by (simp add: ex_env_def)
  from match_order[OF h1 h2 h3, of ex_table ex_query "85 / 100"] l m
  have "mset (rows (match (ex_env 2) ex_table (ex_cbs (rev ex_rows)) ex_query (85 / 100)))
       = mset (rows (match (ex_env 2) ex_table (ex_cbs ex_rows) ex_query (85 / 100)))"
    by simp
  with h1 h2 h3 l show ?thesis by (intro conjI)
qed

text \<open>
  C5, as stated (permuting the reference rows does not change the set of returned rows),
  fails with a result limit of one and two rows of equal score that differ in their account
  number: each order returns the row that comes first.
\<close>

theorem match_order_dependent:
  "set (rows (match (ex_env 1) ex_table
          (ex_cbs [ex_row ''Ram Bahadur'' ''1234'' ''1'', ex_row ''Ram Bahadur'' ''1234'' ''2''])
          ex_query (85 / 100)))
   \<noteq> set (rows (match (ex_env 1) ex_table
          (ex_cbs [ex_row ''Ram Bahadur'' ''1234'' ''2'', ex_row ''Ram Bahadur'' ''1234'' ''1''])
          ex_query (85 / 100)))"
  by code_simp

section \<open>The effect of a match on the store\<close>

lemma untouched_refl: "untouched n s s"
  by (simp add: untouched_def)

lemma untouched_trans: "untouched n s s' \<Longrightarrow> untouched n s' s'' \<Longrightarrow> untouched n s s''"
  by (auto simp: untouched_def)

lemma new_frame_simps:
  "fst (new_frame f s) = next_ref s"
  "next_ref (snd (new_frame f s)) = Suc (next_ref s)"
  "weightage_manager_df (snd (new_frame f s)) = weightage_manager_df s"
  "frames (snd (new_frame f s)) r = (if r = next_ref s then Some f else frames s r)"
  "frame_at (snd (new_frame f s)) (next_ref s) = f"
  by (simp_all add: new_frame_def frame_at_def)

lemma df_write_simps:
  "next_ref (df_write r g s) = next_ref s"
  "weightage_manager_df (df_write r g s) = weightage_manager_df s"
  "frames (df_write r g s) r' = (if r' = r then Some (g (frame_at s r)) else frames s r')"
  "frame_at (df_write r g s) r = g (frame_at s r)"
  by (simp_all add: df_write_def frame_at_def)

lemma untouched_new: "n \<le> next_ref s \<Longrightarrow> untouched n s (snd (new_frame f s))"
  by (simp add: untouched_def new_frame_simps)

lemma untouched_write: "n \<le> r \<Longrightarrow> untouched n s (df_write r g s)"
  by (simp add: untouched_def df_write_simps)

lemma allocates_new: "n \<le> next_ref s \<Longrightarrow> allocates n s (new_frame f s) f"
  by (simp add: allocates_def untouched_new new_frame_simps)

lemma allocates_then:
  assumes "untouched n s s1" "n \<le> next_ref s1 \<Longrightarrow> allocates n s1 rs f"
    and "n \<le> next_ref s"
  shows "allocates n s rs f"
proof -
  have "n \<le> next_ref s1" using assms(1,3) by (simp add: untouched_def)
  then have a: "allocates n s1 rs f" by (rule assms(2))
  then show ?thesis using untouched_trans[OF assms(1)] by (simp add: allocates_def)
qed

lemma untouched_next: "untouched n s s' \<Longrightarrow> n \<le> next_ref s \<Longrightarrow> n \<le> next_ref s'"
  by (simp add: untouched_def)

lemma mask_copy:
  assumes "n \<le> next_ref s"
  shows "allocates n s (df_copy (fst (df_mask r msk s)) (snd (df_mask r msk s)))
           (mask_rows (frame_at s r) msk)"
proof -
  have u1: "untouched n s (snd (df_mask r msk s))"
    unfolding df_mask_def by (rule untouched_new[OF assms])
  have v: "frame_at (snd (df_mask r msk s)) (fst (df_mask r msk s)) = mask_rows (frame_at s r) msk"
    by (simp add: df_mask_def new_frame_simps)
  have "allocates n (snd (df_mask r msk s))
          (df_copy (fst (df_mask r msk s)) (snd (df_mask r msk s)))
          (frame_at (snd (df_mask r msk s)) (fst (df_mask r msk s)))"
    if "n \<le> next_ref (snd (df_mask r msk s))"
    unfolding df_copy_def by (rule allocates_new[OF that])
  then show ?thesis unfolding v[symmetric] using allocates_then[OF u1 _ assms] by blast
qed

lemma prefilter_store_ok:
  "n \<le> next_ref s \<Longrightarrow> n \<le> pm \<Longrightarrow>
   allocates n s (prefilter_store fm mr ac pf pm s) (prefilter fm mr ac pf (frame_at s pm))"
proof (induction pf arbitrary: pm s)
  case Nil
  then show ?case by (simp add: allocates_def untouched_refl)
next
  case (Cons a pf)
  obtain field threshold where a: "a = (field, threshold)" by (cases a)
  let ?sims = "calculate_batch_text_similarity
                (col_values (frame_at s pm) (cbs_field_of fm field))
                (text_query field (rec_get mr field))"
  let ?msk = "map (\<lambda>x. threshold \<le> x) ?sims"
  let ?sel = "df_mask pm ?msk s"
  let ?fil = "df_copy (fst ?sel) (snd ?sel)"
  have al: "allocates n s ?fil (mask_rows (frame_at s pm) ?msk)"
    by (rule mask_copy[OF Cons.prems(1)])
  then have u: "untouched n s (snd ?fil)" and ge: "n \<le> fst ?fil"
    and v: "frame_at (snd ?fil) (fst ?fil) = mask_rows (frame_at s pm) ?msk"
    by (simp_all add: allocates_def)
  have nx: "n \<le> next_ref (snd ?fil)" by (rule untouched_next[OF u Cons.prems(1)])
  have rec: "allocates n s (prefilter_store fm mr ac pf (fst ?fil) (snd ?fil))
               (prefilter fm mr ac pf (mask_rows (frame_at s pm) ?msk))"
    using allocates_then[OF u Cons.IH[OF _ ge] Cons.prems(1)] v by simp
  show ?case
    unfolding a
    using Cons.IH[OF Cons.prems] al rec v
    by (simp add: Let_def)
qed


lemma untouched_setitem: "n \<le> r \<Longrightarrow> untouched n s (df_setitem r c vals s)"
  unfolding df_setitem_def by (rule untouched_write)

lemma untouched_setitem_num: "n \<le> r \<Longrightarrow> untouched n s (df_setitem_num r c vals s)"
  unfolding df_setitem_num_def by (rule untouched_write)

lemma frame_at_setitem: "frame_at (df_setitem r c vals s) r = set_col (frame_at s r) c vals"
  by (simp add: df_setitem_def df_write_simps)

lemma frame_at_setitem_num:
  "frame_at (df_setitem_num r c vals s) r = set_num_col (frame_at s r) c vals"
  by (simp add: df_setitem_num_def df_write_simps)

lemma pad_store_ok:
  assumes "n \<le> r"
  shows "untouched n s (pad_account_column_store fm r s)
         \<and> frame_at (pad_account_column_store fm r s) r = pad_account_column fm (frame_at s r)"
  using untouched_setitem[OF assms] untouched_refl
  by (simp add: pad_account_column_store_def pad_account_column_def Let_def frame_at_setitem)

lemma attach_fold_store:
  assumes "n \<le> m"
  shows "untouched n s
           (foldl (\<lambda>s criterion.
                     case map_of scores criterion of
                       Some sims \<Rightarrow> df_setitem_num m (criterion @ ''_score'') (select keep sims) s
                     | None \<Rightarrow> s) s cs)
         \<and> frame_at
             (foldl (\<lambda>s criterion.
                       case map_of scores criterion of
                         Some sims \<Rightarrow> df_setitem_num m (criterion @ ''_score'') (select keep sims) s
                       | None \<Rightarrow> s) s cs) m
           = foldl (\<lambda>f criterion.
                      case map_of scores criterion of
                        Some sims \<Rightarrow> set_num_col f (criterion @ ''_score'') (select keep sims)
                      | None \<Rightarrow> f) (frame_at s m) cs"
proof (induction cs arbitrary: s)
  case Nil
  show ?case by (simp add: untouched_refl)
next
  case (Cons c cs)
  show ?case
  proof (cases "map_of scores c")
    case None
    then show ?thesis using Cons.IH[of s] by simp
  next
    case (Some sims)
    let ?s1 = "df_setitem_num m (c @ ''_score'') (select keep sims) s"
    have u: "untouched n s ?s1" by (rule untouched_setitem_num[OF assms])
    show ?thesis
      using Some Cons.IH[of ?s1] untouched_trans[OF u]
      by (simp add: frame_at_setitem_num)
  qed
qed

lemma attach_store_ok:
  assumes "n \<le> m"
  shows "untouched n s (attach_scores_store E ac weights scores keep totals m s)
         \<and> frame_at (attach_scores_store E ac weights scores keep totals m s) m
           = attach_scores E ac weights scores keep totals (frame_at s m)"
proof -
  let ?s1 = "df_setitem_num m ''total_score'' (select keep totals) s"
  let ?s2 = "df_setitem m ''match_status''
               (replicate (length (rows (frame_at ?s1 m))) (Some ''Matched'')) ?s1"
  let ?s3 = "df_setitem m ''criteria''
               (replicate (length (rows (frame_at ?s2 m))) (Some (str_weights E weights))) ?s2"
  have u3: "untouched n s ?s3"
    by (rule untouched_trans[OF untouched_trans[OF untouched_setitem_num[OF assms]
              untouched_setitem[OF assms]] untouched_setitem[OF assms]])
  have f3: "frame_at ?s3 m
            = (let m1 = set_num_col (frame_at s m) ''total_score'' (select keep totals);
                   m2 = set_col m1 ''match_status'' (replicate (length (rows m1)) (Some ''Matched''));
                   m3 = set_col m2 ''criteria''
                          (replicate (length (rows m2)) (Some (str_weights E weights)))
               in m3)"
    by (simp add: Let_def frame_at_setitem frame_at_setitem_num)
  from attach_fold_store[OF assms, where s = ?s3 and scores = scores and keep = keep and cs = ac] u3 f3
  show ?thesis
    unfolding attach_scores_store_def attach_scores_def Let_def
    using untouched_trans[OF u3] by simp
qed

lemma sort_head_ok:
  assumes "n \<le> next_ref s"
  shows "allocates n s
           (df_head k (fst (df_sort_values E m s)) (snd (df_sort_values E m s)))
           ((frame_at s m)\<lparr>rows := take k (sort_values_desc E (rows (frame_at s m)))\<rparr>)"
proof -
  let ?so = "df_sort_values E m s"
  have u: "untouched n s (snd ?so)" unfolding df_sort_values_def by (rule untouched_new[OF assms])
  have v: "frame_at (snd ?so) (fst ?so)
           = (frame_at s m)\<lparr>rows := sort_values_desc E (rows (frame_at s m))\<rparr>"
    by (simp add: df_sort_values_def new_frame_simps)
  have "allocates n (snd ?so) (df_head k (fst ?so) (snd ?so))
          ((frame_at (snd ?so) (fst ?so))\<lparr>rows := take k (rows (frame_at (snd ?so) (fst ?so)))\<rparr>)"
    if "n \<le> next_ref (snd ?so)"
    unfolding df_head_def by (rule allocates_new[OF that])
  then have "allocates n s (df_head k (fst ?so) (snd ?so))
          ((frame_at (snd ?so) (fst ?so))\<lparr>rows := take k (rows (frame_at (snd ?so) (fst ?so)))\<rparr>)"
    using allocates_then[OF u _ assms] by blast
  then show ?thesis by (simp add: v)
qed

lemma score_and_rank_store_ok:
  assumes "n \<le> next_ref s"
  shows "allocates n s (score_and_rank_store E fm mr ac weights T pm s)
           (score_and_rank E fm mr ac weights T (frame_at s pm))"
proof -
  let ?scores = "similarity_scores fm mr ac (frame_at s pm)"
  let ?totals = "total_scores weights ?scores (length (rows (frame_at s pm)))"
  let ?keep = "map (\<lambda>t. T \<le> t) ?totals"
  let ?sel = "df_mask pm ?keep s"
  let ?m = "df_copy (fst ?sel) (snd ?sel)"
  let ?f = "mask_rows (frame_at s pm) ?keep"
  have al: "allocates n s ?m ?f" by (rule mask_copy[OF assms])
  then have u: "untouched n s (snd ?m)" and ge: "n \<le> fst ?m"
    and v: "frame_at (snd ?m) (fst ?m) = ?f"
    by (simp_all add: allocates_def)
  have nx: "n \<le> next_ref (snd ?m)" by (rule untouched_next[OF u assms])
  show ?thesis
  proof (cases "df_empty ?f")
    case True
    have "allocates n s (new_frame empty_frame (snd ?m)) empty_frame"
      by (rule allocates_then[OF u allocates_new assms])
    then show ?thesis
      using True v by (simp add: score_and_rank_store_def score_and_rank_def Let_def)
  next
    case False
    let ?s1 = "attach_scores_store E ac weights ?scores ?keep ?totals (fst ?m) (snd ?m)"
    let ?g = "attach_scores E ac weights ?scores ?keep ?totals ?f"
    from attach_store_ok[OF ge, where s = "snd ?m" and E = E and ac = ac and weights = weights
         and scores = ?scores and keep = ?keep and totals = ?totals]
    have u1: "untouched n (snd ?m) ?s1" and v1: "frame_at ?s1 (fst ?m) = ?g"
      by (simp_all add: v)
    have us: "untouched n s ?s1" by (rule untouched_trans[OF u u1])
    have "allocates n s
            (df_head (MAX_MATCHES_TO_STORE E) (fst (df_sort_values E (fst ?m) ?s1))
               (snd (df_sort_values E (fst ?m) ?s1)))
            (?g\<lparr>rows := take (MAX_MATCHES_TO_STORE E) (sort_values_desc E (rows ?g))\<rparr>)"
      using allocates_then[OF us
              sort_head_ok[where E = E and m = "fst ?m" and k = "MAX_MATCHES_TO_STORE E"] assms]
      by (simp add: v1)
    then show ?thesis
      using False v by (simp add: score_and_rank_store_def score_and_rank_def Let_def)
  qed
qed

lemma match_store_ok:
  "allocates (next_ref s) s (match_store E cbs src T s)
     (match E (weightage_manager_df s) (frame_at s cbs) src T)"
proof -
  let ?n = "next_ref s"
  let ?et = "determine_entity_type src"
  let ?fm = "if ?et = ''individual'' then INDIVIDUAL_FIELD_MAPPING E else INSTITUTION_FIELD_MAPPING E"
  let ?mr = "map_record ?fm (flatten_record ?et src)"
  let ?ac = "get_available_criteria ?mr"
  let ?w = "get_normalized_weights (weightage_manager_df s) src ?ac"
  have e: "allocates ?n s (new_frame empty_frame s) empty_frame"
    by (rule allocates_new[OF order_refl])
  show ?thesis
  proof (cases "df_empty (frame_at s cbs) \<or> ?ac = []")
    case True
    then show ?thesis
      using e by (auto simp: match_store_def match_def match_with_def Let_def)
  next
    case False
    let ?c = "df_copy cbs s"
    have uc: "untouched ?n s (snd ?c)" unfolding df_copy_def by (rule untouched_new[OF order_refl])
    have gc: "?n \<le> fst ?c" by (simp add: df_copy_def new_frame_simps)
    have vc: "frame_at (snd ?c) (fst ?c) = frame_at s cbs"
      by (simp add: df_copy_def new_frame_simps)
    let ?s1 = "pad_account_column_store ?fm (fst ?c) (snd ?c)"
    from pad_store_ok[OF gc, where s = "snd ?c" and fm = ?fm]
    have u1: "untouched ?n (snd ?c) ?s1"
      and v1: "frame_at ?s1 (fst ?c) = pad_account_column ?fm (frame_at s cbs)"
      by (simp_all add: vc)
    have us1: "untouched ?n s ?s1" by (rule untouched_trans[OF uc u1])
    have n1: "?n \<le> next_ref ?s1" by (rule untouched_next[OF us1 order_refl])
    let ?p = "prefilter_store ?fm ?mr ?ac prefilter_fields (fst ?c) ?s1"
    let ?pf = "prefilter ?fm ?mr ?ac prefilter_fields (pad_account_column ?fm (frame_at s cbs))"
    have "allocates ?n ?s1 ?p ?pf"
      using prefilter_store_ok[OF n1 gc, where fm = ?fm and mr = ?mr and ac = ?ac
              and pf = prefilter_fields] by (simp add: v1)
    then have up: "untouched ?n ?s1 (snd ?p)" and gp: "?n \<le> fst ?p"
      and vp: "frame_at (snd ?p) (fst ?p) = ?pf"
      by (simp_all add: allocates_def)
    have usp: "untouched ?n s (snd ?p)" by (rule untouched_trans[OF us1 up])
    have wp: "weightage_manager_df (snd ?p) = weightage_manager_df s" using usp by (simp add: untouched_def)
    show ?thesis
    proof (cases "df_empty ?pf")
      case True
      have "allocates ?n s (new_frame empty_frame (snd ?p)) empty_frame"
        by (rule allocates_then[OF usp allocates_new order_refl])
      then show ?thesis
        using False True vp by (simp add: match_store_def match_def match_with_def Let_def)
    next
      case ne: False
      have "allocates ?n s (score_and_rank_store E ?fm ?mr ?ac ?w T (fst ?p) (snd ?p))
              (score_and_rank E ?fm ?mr ?ac ?w T ?pf)"
        using allocates_then[OF usp
                score_and_rank_store_ok[where E = E and fm = ?fm and mr = ?mr and ac = ?ac
                  and weights = ?w and T = T and pm = "fst ?p"] order_refl]
        by (simp add: vp)
      then show ?thesis
        using False ne vp by (simp add: match_store_def match_def match_with_def Let_def)
    qed
  qed
qed

text \<open>
  The padding is a write to the frame whose address it is given: applied to the address of
  the example's reference frame, it changes that frame.
\<close>

lemma pad_writes_in_place:
  "map (row_cell ''ACCT_NUMBER'')
     (rows (frame_at (pad_account_column_store (INDIVIDUAL_FIELD_MAPPING (ex_env 2)) 0 ex_store) 0))
   = [Some ''0000000000000123'', Some ''0000000000000005'', Some ''0000000000000077'']"
  by code_simp

text \<open>
  C9: a call of \<^verbatim>\<open>match\<close> mutates neither the reference frame nor the weight table. In the
  store after the call, every frame that existed before it (every address below
  \<open>next_ref\<close>, the caller's reference frame among them) holds what it held, and the weight
  table is what it was. The writes of \<^verbatim>\<open>match\<close>, the zero-padding of the account column and
  the score columns, go to frames that the call allocated itself: the frame it returns is
  a new object and holds what \<open>match\<close> computes from the values.
\<close>

theorem match_store_frame:
  "(\<forall>r < next_ref s. frames (snd (match_store E cbs_data source_record final_threshold s)) r
                        = frames s r)
   \<and> weightage_manager_df (snd (match_store E cbs_data source_record final_threshold s)) = weightage_manager_df s
   \<and> frame_at (snd (match_store E cbs_data source_record final_threshold s))
       (fst (match_store E cbs_data source_record final_threshold s))
     = match E (weightage_manager_df s) (frame_at s cbs_data) source_record final_threshold"
  using match_store_ok[of s E cbs_data source_record final_threshold]
  by (simp add: allocates_def untouched_def)

theorem match_store_frame_witness:
  "0 < next_ref ex_store
   \<and> frames (snd (match_store (ex_env 2) 0 ex_query (85 / 100) ex_store)) 0
       = Some (ex_cbs ex_rows)
   \<and> weightage_manager_df (snd (match_store (ex_env 2) 0 ex_query (85 / 100) ex_store)) = ex_table
   \<and> map (row_cell ''ACCT_NUMBER'')
         (rows (frame_at (snd (match_store (ex_env 2) 0 ex_query (85 / 100) ex_store))
                  (fst (match_store (ex_env 2) 0 ex_query (85 / 100) ex_store))))
       = [Some ''0000000000000077'', Some ''0000000000000123'']"
proof -
  let ?r = "match_store (ex_env 2) 0 ex_query (85 / 100) ex_store"
  note t = match_store_frame[of ex_store "ex_env 2" 0 ex_query "85 / 100"]
  have b: "0 < next_ref ex_store" by (simp add: ex_store_def)
  have f0: "frames ex_store 0 = Some (ex_cbs ex_rows)" by (simp add: ex_store_def)
  have w0: "weightage_manager_df ex_store = ex_table" by (simp add: ex_store_def)
  have a0: "frame_at ex_store 0 = ex_cbs ex_rows" by (simp add: frame_at_def f0)
  have c1: "frames (snd ?r) 0 = Some (ex_cbs ex_rows)"
    using t[THEN conjunct1, rule_format, OF b] f0 by simp
  have c2: "weightage_manager_df (snd ?r) = ex_table"
    using t[THEN conjunct2, THEN conjunct1] w0 by simp
  have m: "map (row_cell ''ACCT_NUMBER'')
             (rows (match (ex_env 2) ex_table (ex_cbs ex_rows) ex_query (85 / 100)))
           = [Some ''0000000000000077'', Some ''0000000000000123'']"
    by code_simp
  have c3: "map (row_cell ''ACCT_NUMBER'') (rows (frame_at (snd ?r) (fst ?r)))
            = [Some ''0000000000000077'', Some ''0000000000000123'']"
    unfolding t[THEN conjunct2, THEN conjunct2] w0 a0 by (rule m)
  from b c1 c2 c3 show ?thesis by (intro conjI)
qed

end
